theory Spec2Isabelle
  imports Complex_Main "HOL-Library.Word"
begin

unbundle bit_operations_syntax

section \<open>JavaScript values used by the swap form\<close>

subsection \<open>Strings\<close>

text \<open>
  A JavaScript string is a sequence of UTF-16 code units; \<^verbatim>\<open>charCodeAt\<close>,
  \<^verbatim>\<open>trim\<close> and \<^verbatim>\<open>encodeURIComponent\<close> all work on code units, so that
  is the representation. \<open>str\<close> embeds an ASCII literal of the source.
\<close>

type_synonym jsstring = "16 word list"

definition str :: "string \<Rightarrow> jsstring" where
  "str s = map of_char s"

text \<open>
  \<^verbatim>\<open>String.prototype.trim\<close> strips WhiteSpace and LineTerminator code points
  (ECMA-262): TAB, LF, VT, FF, CR, SPACE, NBSP, U+1680, U+2000..U+200A, U+2028, U+2029,
  U+202F, U+205F, U+3000 and U+FEFF.
\<close>

definition isWhiteSpace :: "16 word \<Rightarrow> bool" where
  "isWhiteSpace c \<longleftrightarrow>
     (0x9 \<le> c \<and> c \<le> 0xD) \<or> c = 0x20 \<or> c = 0xA0 \<or> c = 0x1680 \<or>
     (0x2000 \<le> c \<and> c \<le> 0x200A) \<or> c = 0x2028 \<or> c = 0x2029 \<or> c = 0x202F \<or>
     c = 0x205F \<or> c = 0x3000 \<or> c = 0xFEFF"

definition trim :: "jsstring \<Rightarrow> jsstring" where
  "trim s = rev (dropWhile isWhiteSpace (rev (dropWhile isWhiteSpace s)))"

subsection \<open>Numbers\<close>

text \<open>
  A JavaScript number is an IEEE 754 double. The three non-finite values are kept apart,
  because the code tests for them with \<^verbatim>\<open>Number.isFinite\<close>; a finite double is
  represented by the real number it denotes. Arithmetic on finite values is exact except
  at the ends of the exponent range: a result of magnitude at least \<open>2^1024 - 2^970\<close>
  overflows to an infinity and one of magnitude at most \<open>2^-1075\<close> becomes zero, as
  round-to-nearest does. Rounding of the 53-bit significand inside the range is not
  represented, and neither is the sign of zero (the code never divides by a zero: \<open>rate\<close>
  divides by a strictly positive price, the other divisors are the constants 100 and
  10000).
\<close>

datatype jsnum = NaN | PInf | NInf | Fin real

definition fl :: "real \<Rightarrow> jsnum" where
  "fl r = (if 2 ^ 1024 - 2 ^ 970 \<le> \<bar>r\<bar> then (if r < 0 then NInf else PInf)
           else if \<bar>r\<bar> \<le> 1 / 2 ^ 1075 then Fin 0
           else Fin r)"

fun isFinite :: "jsnum \<Rightarrow> bool" where
  "isFinite (Fin r) = True"
| "isFinite _ = False"

fun js_lt :: "jsnum \<Rightarrow> jsnum \<Rightarrow> bool" where
  "js_lt NaN _ = False"
| "js_lt _ NaN = False"
| "js_lt (Fin a) (Fin b) = (a < b)"
| "js_lt _ NInf = False"
| "js_lt NInf _ = True"
| "js_lt PInf _ = False"
| "js_lt (Fin a) PInf = True"

fun js_le :: "jsnum \<Rightarrow> jsnum \<Rightarrow> bool" where
  "js_le NaN _ = False"
| "js_le _ NaN = False"
| "js_le (Fin a) (Fin b) = (a \<le> b)"
| "js_le NInf _ = True"
| "js_le _ PInf = True"
| "js_le PInf _ = False"
| "js_le (Fin a) NInf = False"

definition js_gt :: "jsnum \<Rightarrow> jsnum \<Rightarrow> bool" where
  "js_gt a b = js_lt b a"

fun fneg :: "jsnum \<Rightarrow> jsnum" where
  "fneg NaN = NaN"
| "fneg PInf = NInf"
| "fneg NInf = PInf"
| "fneg (Fin a) = Fin (- a)"

fun fmul :: "jsnum \<Rightarrow> jsnum \<Rightarrow> jsnum" where
  "fmul NaN _ = NaN"
| "fmul _ NaN = NaN"
| "fmul (Fin a) (Fin b) = fl (a * b)"
| "fmul (Fin a) i = (if a = 0 then NaN else if a < 0 then fneg i else i)"
| "fmul i (Fin b) = (if b = 0 then NaN else if b < 0 then fneg i else i)"
| "fmul i j = (if i = j then PInf else NInf)"

fun fdiv :: "jsnum \<Rightarrow> jsnum \<Rightarrow> jsnum" where
  "fdiv NaN _ = NaN"
| "fdiv _ NaN = NaN"
| "fdiv (Fin a) (Fin b) =
     (if b = 0 then (if a = 0 then NaN else if a < 0 then NInf else PInf) else fl (a / b))"
| "fdiv (Fin a) _ = Fin 0"
| "fdiv i (Fin b) = (if b < 0 then fneg i else i)"
| "fdiv _ _ = NaN"

fun fsub :: "jsnum \<Rightarrow> jsnum \<Rightarrow> jsnum" where
  "fsub NaN _ = NaN"
| "fsub _ NaN = NaN"
| "fsub (Fin a) (Fin b) = fl (a - b)"
| "fsub (Fin a) i = fneg i"
| "fsub i (Fin b) = i"
| "fsub i j = (if i = j then NaN else i)"

text \<open>\<^verbatim>\<open>Math.max(a, b)\<close>: NaN if either argument is NaN.\<close>

fun math_max :: "jsnum \<Rightarrow> jsnum \<Rightarrow> jsnum" where
  "math_max NaN _ = NaN"
| "math_max _ NaN = NaN"
| "math_max a b = (if js_lt a b then b else a)"

subsection \<open>String to number\<close>

text \<open>
  \<^verbatim>\<open>Number(s)\<close> on a string is StringToNumber of ECMA-262: surrounding white space
  is ignored, the empty string is 0, and the rest must be a StrNumericLiteral: a binary,
  octal or hexadecimal integer (unsigned), or an optionally signed decimal literal or
  \<^verbatim>\<open>Infinity\<close>. Anything else is NaN.
\<close>

definition isDecimalDigit :: "16 word \<Rightarrow> bool" where
  "isDecimalDigit c \<longleftrightarrow> 0x30 \<le> c \<and> c \<le> 0x39"

definition isHexDigit :: "16 word \<Rightarrow> bool" where
  "isHexDigit c \<longleftrightarrow> (0x30 \<le> c \<and> c \<le> 0x39) \<or> (0x61 \<le> c \<and> c \<le> 0x66) \<or> (0x41 \<le> c \<and> c \<le> 0x46)"

definition isOctalDigit :: "16 word \<Rightarrow> bool" where
  "isOctalDigit c \<longleftrightarrow> 0x30 \<le> c \<and> c \<le> 0x37"

definition isBinaryDigit :: "16 word \<Rightarrow> bool" where
  "isBinaryDigit c \<longleftrightarrow> c = 0x30 \<or> c = 0x31"

definition digitVal :: "16 word \<Rightarrow> nat" where
  "digitVal c = (if 0x61 \<le> c \<and> c \<le> 0x66 then unat c - 87
                 else if 0x41 \<le> c \<and> c \<le> 0x46 then unat c - 55
                 else unat c - 48)"

definition digitsValue :: "nat \<Rightarrow> jsstring \<Rightarrow> nat" where
  "digitsValue radix ds = foldl (\<lambda>acc c. acc * radix + digitVal c) 0 ds"

text \<open>ExponentPart, or nothing: \<open>None\<close> when the rest is not an exponent part.\<close>

definition parseExponent :: "jsstring \<Rightarrow> int option" where
  "parseExponent r =
     (case r of
        [] \<Rightarrow> Some 0
      | c # rest \<Rightarrow>
          if c = 0x65 \<or> c = 0x45 then
            (let neg = (case rest of [] \<Rightarrow> False | d # _ \<Rightarrow> d = 0x2D);
                 ds = (case rest of [] \<Rightarrow> [] | d # ds' \<Rightarrow> if d = 0x2D \<or> d = 0x2B then ds' else rest)
             in if ds \<noteq> [] \<and> list_all isDecimalDigit ds
                then Some (if neg then - int (digitsValue 10 ds) else int (digitsValue 10 ds))
                else None)
          else None)"

text \<open>
  StrUnsignedDecimalLiteral: its mathematical value, \<open>PInf\<close> for \<^verbatim>\<open>Infinity\<close>,
  \<open>None\<close> when the text is not such a literal.
\<close>

definition parseUnsignedDecimal :: "jsstring \<Rightarrow> jsnum option" where
  "parseUnsignedDecimal s =
     (if s = str ''Infinity'' then Some PInf
      else
        let ip = takeWhile isDecimalDigit s;
            r1 = dropWhile isDecimalDigit s;
            dot = (case r1 of [] \<Rightarrow> False | c # _ \<Rightarrow> c = 0x2E);
            fp = (if dot then takeWhile isDecimalDigit (tl r1) else []);
            r2 = (if dot then dropWhile isDecimalDigit (tl r1) else r1)
        in if ip = [] \<and> fp = [] then None
           else (case parseExponent r2 of
                   None \<Rightarrow> None
                 | Some e \<Rightarrow>
                     let m = real (digitsValue 10 (ip @ fp)); k = e - int (length fp)
                     in Some (Fin (if 0 \<le> k then m * 10 ^ nat k else m / 10 ^ nat (- k)))))"

definition parseNonDecimal :: "jsstring \<Rightarrow> jsnum option" where
  "parseNonDecimal t =
     (case t of
        z # p # ds \<Rightarrow>
          if z \<noteq> 0x30 then None
          else if p = 0x78 \<or> p = 0x58 then
            Some (if ds \<noteq> [] \<and> list_all isHexDigit ds then fl (real (digitsValue 16 ds)) else NaN)
          else if p = 0x6F \<or> p = 0x4F then
            Some (if ds \<noteq> [] \<and> list_all isOctalDigit ds then fl (real (digitsValue 8 ds)) else NaN)
          else if p = 0x62 \<or> p = 0x42 then
            Some (if ds \<noteq> [] \<and> list_all isBinaryDigit ds then fl (real (digitsValue 2 ds)) else NaN)
          else None
      | _ \<Rightarrow> None)"

definition roundLiteral :: "bool \<Rightarrow> jsnum option \<Rightarrow> jsnum" where
  "roundLiteral neg v =
     (case v of
        None \<Rightarrow> NaN
      | Some (Fin r) \<Rightarrow> fl (if neg then - r else r)
      | Some i \<Rightarrow> (if neg then fneg i else i))"

definition Number :: "jsstring \<Rightarrow> jsnum" where
  "Number s =
     (let t = trim s in
      if t = [] then Fin 0
      else (case parseNonDecimal t of
              Some n \<Rightarrow> n
            | None \<Rightarrow>
                if hd t = 0x2D then roundLiteral True (parseUnsignedDecimal (tl t))
                else if hd t = 0x2B then roundLiteral False (parseUnsignedDecimal (tl t))
                else roundLiteral False (parseUnsignedDecimal t)))"

section \<open>The quote and validation engine\<close>

subsection \<open>Amount parsing\<close>

text \<open>
  \<^verbatim>\<open>
  function safeParseNumber(v: string) {
    const cleaned = v.replace(/,/g, '').trim()
    if (cleaned === '') return NaN
    const n = Number(cleaned)
    return Number.isFinite(n) ? n : NaN
  }
  \<close>
\<close>

definition safeParseNumber :: "jsstring \<Rightarrow> jsnum" where
  "safeParseNumber v =
     (let cleaned = trim (filter (\<lambda>c. c \<noteq> 0x2C) v) in
      if cleaned = [] then NaN
      else let n = Number cleaned in if isFinite n then n else NaN)"

subsection \<open>Simulated balances\<close>

text \<open>
  \<^verbatim>\<open>
  function pseudoBalance(symbol: string) {
    let x = 0
    for (let i = 0; i < symbol.length; i++) x = (x * 31 + symbol.charCodeAt(i)) >>> 0
    const base = (x % 9500) / 100
    return Math.max(1, base)
  }
  \<close>
  \<open>x\<close> is below \<open>2^32\<close> before each step, so \<open>x * 31 + c\<close> is an integer below
  \<open>2^53\<close> and the double arithmetic is exact; \<^verbatim>\<open>>>> 0\<close> then reduces it modulo
  \<open>2^32\<close>, which is the arithmetic of \<open>32 word\<close>.
\<close>

definition pseudoBalance :: "jsstring \<Rightarrow> jsnum" where
  "pseudoBalance symbol =
     (let x = foldl (\<lambda>x c. x * 31 + ucast c) (0 :: 32 word) symbol;
          base = fdiv (Fin (real (unat x mod 9500))) (Fin 100)
      in math_max (Fin 1) base)"

subsection \<open>Engine functions that depend on Unicode data\<close>

text \<open>
  Three built-ins used by \<^verbatim>\<open>parsePrices\<close> are defined by the Unicode character
  database or by the host's collation tables, not by the program: upper-casing of
  non-ASCII text, \<^verbatim>\<open>localeCompare\<close>, and the decimal rendering of a number by
  \<^verbatim>\<open>String\<close>. They are parameters of the model. On ASCII text
  \<^verbatim>\<open>toUpperCase\<close> is fixed by the language (a..z to A..Z) and is defined here.
\<close>

record platform =
  upperNonAscii :: "jsstring \<Rightarrow> jsstring"
  localeCompare :: "jsstring \<Rightarrow> jsstring \<Rightarrow> int"
  numberToString :: "jsnum \<Rightarrow> jsstring"

definition toUpperCase :: "platform \<Rightarrow> jsstring \<Rightarrow> jsstring" where
  "toUpperCase P s =
     (if list_all (\<lambda>c. c < 0x80) s
      then map (\<lambda>c. if 0x61 \<le> c \<and> c \<le> 0x7A then c - 0x20 else c) s
      else upperNonAscii P s)"

subsection \<open>Errors\<close>

text \<open>
  The two exceptions the normalizer can throw: TypeError from a property read on
  \<^verbatim>\<open>null\<close> or from \<^verbatim>\<open>String\<close> of an object that cannot be converted, and URIError
  from \<^verbatim>\<open>encodeURIComponent\<close> on an unpaired surrogate.
\<close>

datatype error = TypeError | URIError

subsection \<open>Icon references\<close>

text \<open>
  \<^verbatim>\<open>encodeURIComponent\<close> (ECMA-262, Encode): a code unit of the unreserved set
  (letters, digits and \<^verbatim>\<open>-_.!~*'()\<close>) is copied; any other code point is
  written as the percent-escaped octets of its UTF-8 encoding; an unpaired surrogate
  throws URIError.
\<close>

definition isUriUnreserved :: "16 word \<Rightarrow> bool" where
  "isUriUnreserved c \<longleftrightarrow>
     (0x41 \<le> c \<and> c \<le> 0x5A) \<or> (0x61 \<le> c \<and> c \<le> 0x7A) \<or> (0x30 \<le> c \<and> c \<le> 0x39) \<or>
     c = 0x2D \<or> c = 0x5F \<or> c = 0x2E \<or> c = 0x21 \<or> c = 0x7E \<or> c = 0x2A \<or>
     c = 0x27 \<or> c = 0x28 \<or> c = 0x29"

definition utf8 :: "nat \<Rightarrow> nat list" where
  "utf8 cp =
     (if cp < 0x80 then [cp]
      else if cp < 0x800 then [0xC0 + cp div 64, 0x80 + cp mod 64]
      else if cp < 0x10000 then [0xE0 + cp div 4096, 0x80 + cp div 64 mod 64, 0x80 + cp mod 64]
      else [0xF0 + cp div 262144, 0x80 + cp div 4096 mod 64, 0x80 + cp div 64 mod 64,
            0x80 + cp mod 64])"

definition hexDigit :: "nat \<Rightarrow> 16 word" where
  "hexDigit d = (if d < 10 then of_nat (48 + d) else of_nat (55 + d))"

definition percentEscape :: "nat list \<Rightarrow> jsstring" where
  "percentEscape octets = concat (map (\<lambda>b. [0x25, hexDigit (b div 16), hexDigit (b mod 16)]) octets)"

fun encodeURIComponent :: "jsstring \<Rightarrow> error + jsstring" where
  "encodeURIComponent [] = Inr []"
| "encodeURIComponent (c # cs) =
     (if isUriUnreserved c then
        (case encodeURIComponent cs of Inl e \<Rightarrow> Inl e | Inr r \<Rightarrow> Inr (c # r))
      else if c < 0xD800 \<or> 0xDFFF < c then
        (case encodeURIComponent cs of
           Inl e \<Rightarrow> Inl e
         | Inr r \<Rightarrow> Inr (percentEscape (utf8 (unat c)) @ r))
      else if 0xDC00 \<le> c then Inl URIError
      else
        (case cs of
           [] \<Rightarrow> Inl URIError
         | d # ds \<Rightarrow>
             if 0xDC00 \<le> d \<and> d \<le> 0xDFFF then
               (case encodeURIComponent ds of
                  Inl e \<Rightarrow> Inl e
                | Inr r \<Rightarrow>
                    Inr (percentEscape
                           (utf8 (0x10000 + (unat c - 0xD800) * 0x400 + (unat d - 0xDC00))) @ r))
             else Inl URIError))"

text \<open>
  \<^verbatim>\<open>
  function iconUrl(symbol: string) {
    return `https://raw.githubusercontent.com/Switcheo/token-icons/main/tokens/${encodeURIComponent(symbol)}.svg`
  }
  \<close>
\<close>

definition iconUrl :: "jsstring \<Rightarrow> error + jsstring" where
  "iconUrl symbol =
     (case encodeURIComponent symbol of
        Inl e \<Rightarrow> Inl e
      | Inr enc \<Rightarrow>
          Inr (str ''https://raw.githubusercontent.com/Switcheo/token-icons/main/tokens/''
               @ enc @ str ''.svg''))"

subsection \<open>Feed values and tokens\<close>

text \<open>
  The feed is what \<^verbatim>\<open>res.json()\<close> returns: a JSON value. An object lists its
  own properties in the order \<^verbatim>\<open>Object.entries\<close> enumerates them; its keys are
  pairwise distinct in any real object. \<^verbatim>\<open>undefined\<close>, the value of a missing
  property, is \<open>None\<close> of \<open>json option\<close>.
  The field \<open>icon\<close> is the \<^verbatim>\<open>iconUrl\<close> field of the source's \<^verbatim>\<open>Token\<close>
  (the name \<open>iconUrl\<close> is taken by the function).
\<close>

datatype json =
    JNull
  | JBool bool
  | JNum jsnum
  | JStr jsstring
  | JArr "json list"
  | JObj "(jsstring \<times> json) list"

record token =
  symbol :: jsstring
  price :: jsnum
  icon :: jsstring

text \<open>
  Reading one of the properties \<^verbatim>\<open>currency\<close>, \<^verbatim>\<open>symbol\<close>, \<^verbatim>\<open>price\<close>:
  on \<^verbatim>\<open>null\<close> it throws TypeError; on an object it is the own property or
  \<^verbatim>\<open>undefined\<close>; numbers, booleans, strings and arrays have no property of these
  names.
\<close>

fun getProp :: "json \<Rightarrow> jsstring \<Rightarrow> error + json option" where
  "getProp JNull k = Inl TypeError"
| "getProp (JObj kvs) k = Inr (map_of kvs k)"
| "getProp _ k = Inr None"

text \<open>
  Truthiness (ToBoolean) and \<^verbatim>\<open>String(v)\<close> (ToString) of a feed value.
  \<^verbatim>\<open>String\<close> of an object asks the object for its \<^verbatim>\<open>toString\<close> and then its
  \<^verbatim>\<open>valueOf\<close> method. A parsed JSON object inherits both from \<^verbatim>\<open>Object.prototype\<close> and
  converts to \<^verbatim>\<open>[object Object]\<close>, unless it has an own key \<^verbatim>\<open>toString\<close>: its value is
  not callable, the inherited \<^verbatim>\<open>valueOf\<close> returns the object itself, and the conversion
  throws TypeError. \<^verbatim>\<open>String\<close> of an array joins the conversions of its elements with
  commas, \<^verbatim>\<open>null\<close> counting as the empty string, and throws when one of them does.
\<close>

fun truthy :: "json option \<Rightarrow> bool" where
  "truthy None = False"
| "truthy (Some JNull) = False"
| "truthy (Some (JBool b)) = b"
| "truthy (Some (JNum n)) = (n \<noteq> NaN \<and> n \<noteq> Fin 0)"
| "truthy (Some (JStr s)) = (s \<noteq> [])"
| "truthy (Some (JArr xs)) = True"
| "truthy (Some (JObj kvs)) = True"

fun joinComma :: "jsstring list \<Rightarrow> jsstring" where
  "joinComma [] = []"
| "joinComma [s] = s"
| "joinComma (s # t # ss) = s @ 0x2C # joinComma (t # ss)"

fun collect :: "(error + 'a) list \<Rightarrow> error + 'a list" where
  "collect [] = Inr []"
| "collect (x # xs) =
     (case x of
        Inl e \<Rightarrow> Inl e
      | Inr v \<Rightarrow> (case collect xs of Inl e \<Rightarrow> Inl e | Inr vs \<Rightarrow> Inr (v # vs)))"

fun ToString :: "platform \<Rightarrow> json \<Rightarrow> error + jsstring" where
  "ToString P JNull = Inr (str ''null'')"
| "ToString P (JBool b) = Inr (if b then str ''true'' else str ''false'')"
| "ToString P (JNum n) = Inr (numberToString P n)"
| "ToString P (JStr s) = Inr s"
| "ToString P (JArr xs) =
     (case collect (map (\<lambda>x. if x = JNull then Inr [] else ToString P x) xs) of
        Inl e \<Rightarrow> Inl e
      | Inr ss \<Rightarrow> Inr (joinComma ss))"
| "ToString P (JObj kvs) =
     (if str ''toString'' \<in> fst ` set kvs then Inl TypeError else Inr (str ''[object Object]''))"

subsection \<open>The price normalizer\<close>

text \<open>
  \<^verbatim>\<open>
  const push = (symRaw: unknown, priceRaw: unknown) => {
    const symbol = String(symRaw || '').trim()
    const price = typeof priceRaw === 'string' ? Number(priceRaw) : (priceRaw as number)
    if (!symbol || !Number.isFinite(price) || price <= 0) return
    out.push({ symbol, price, iconUrl: iconUrl(symbol) })
  }
  \<close>
  \<open>pushSymbol\<close> and \<open>pushPrice\<close> are the two local constants, \<open>rejected\<close> is the guard.
  \<open>pushSymbol\<close> throws when \<^verbatim>\<open>String\<close> does.
  \<^verbatim>\<open>Number.isFinite\<close> is false for every value that is not a number, so \<open>price <= 0\<close>
  is only ever evaluated on a finite number.
\<close>

definition pushSymbol :: "platform \<Rightarrow> json option \<Rightarrow> error + jsstring" where
  "pushSymbol P symRaw =
     (if truthy symRaw
      then (case ToString P (the symRaw) of Inl e \<Rightarrow> Inl e | Inr s \<Rightarrow> Inr (trim s))
      else Inr (trim []))"

definition pushPrice :: "json option \<Rightarrow> json option" where
  "pushPrice priceRaw = (case priceRaw of Some (JStr s) \<Rightarrow> Some (JNum (Number s)) | _ \<Rightarrow> priceRaw)"

fun Number_isFinite :: "json option \<Rightarrow> bool" where
  "Number_isFinite (Some (JNum n)) = isFinite n"
| "Number_isFinite _ = False"

fun asNumber :: "json option \<Rightarrow> jsnum" where
  "asNumber (Some (JNum n)) = n"
| "asNumber _ = NaN"

definition rejected :: "jsstring \<Rightarrow> json option \<Rightarrow> bool" where
  "rejected symb pr \<longleftrightarrow> symb = [] \<or> \<not> Number_isFinite pr \<or> js_le (asNumber pr) (Fin 0)"

definition push :: "platform \<Rightarrow> token list \<Rightarrow> json option \<Rightarrow> json option \<Rightarrow> error + token list" where
  "push P out symRaw priceRaw =
     (case pushSymbol P symRaw of
        Inl e \<Rightarrow> Inl e
      | Inr symb \<Rightarrow>
          (let pr = pushPrice priceRaw in
           if rejected symb pr then Inr out
           else (case iconUrl symb of
                   Inl e \<Rightarrow> Inl e
                 | Inr u \<Rightarrow> Inr (out @ [\<lparr>symbol = symb, price = asNumber pr, icon = u\<rparr>]))))"

text \<open>
  The arguments of \<open>push\<close> for one element of an array feed,
  \<^verbatim>\<open>push(row.currency ?? row.symbol, row.price)\<close>, and for one entry of an object
  feed,
  \<^verbatim>\<open>
  if (v && typeof v === 'object' && 'price' in (v as any)) push(k, (v as any).price)
  else push(k, v)
  \<close>
\<close>

definition rowArgs :: "json \<Rightarrow> error + (json option \<times> json option)" where
  "rowArgs row =
     (case getProp row (str ''currency'') of
        Inl e \<Rightarrow> Inl e
      | Inr c \<Rightarrow>
          (case (if c = None \<or> c = Some JNull then getProp row (str ''symbol'') else Inr c) of
             Inl e \<Rightarrow> Inl e
           | Inr s \<Rightarrow>
               (case getProp row (str ''price'') of
                  Inl e \<Rightarrow> Inl e
                | Inr p \<Rightarrow> Inr (s, p))))"

definition entryArgs :: "jsstring \<times> json \<Rightarrow> error + (json option \<times> json option)" where
  "entryArgs kv =
     (case kv of
        (k, JObj props) \<Rightarrow>
          if str ''price'' \<in> fst ` set props then Inr (Some (JStr k), map_of props (str ''price''))
          else Inr (Some (JStr k), Some (JObj props))
      | (k, v) \<Rightarrow> Inr (Some (JStr k), Some v))"

text \<open>The candidate entries of a feed, in iteration order.\<close>

definition candidates :: "json \<Rightarrow> (error + (json option \<times> json option)) list" where
  "candidates data =
     (case data of
        JArr rows \<Rightarrow> map rowArgs rows
      | JObj kvs \<Rightarrow> map entryArgs kvs
      | _ \<Rightarrow> [])"

fun pushAll :: "platform \<Rightarrow> token list \<Rightarrow> (error + (json option \<times> json option)) list
    \<Rightarrow> error + token list" where
  "pushAll P out [] = Inr out"
| "pushAll P out (a # as) =
     (case a of
        Inl e \<Rightarrow> Inl e
      | Inr (s, p) \<Rightarrow>
          (case push P out s p of
             Inl e \<Rightarrow> Inl e
           | Inr out' \<Rightarrow> pushAll P out' as))"

text \<open>
  \<^verbatim>\<open>
  const map = new Map<string, Token>()
  for (const t of out) map.set(t.symbol.toUpperCase(), { ...t, symbol: t.symbol.toUpperCase() })
  return [...map.values()].sort((a, b) => a.symbol.localeCompare(b.symbol))
  \<close>
  A \<^verbatim>\<open>Map\<close> iterates in the order in which its keys were first inserted;
  \<^verbatim>\<open>set\<close> on a key that is present replaces the value in place.
\<close>

fun map_set :: "'k \<Rightarrow> 'v \<Rightarrow> ('k \<times> 'v) list \<Rightarrow> ('k \<times> 'v) list" where
  "map_set k v [] = [(k, v)]"
| "map_set k v (e # es) = (if fst e = k then (k, v) # es else e # map_set k v es)"

definition dedupe :: "platform \<Rightarrow> token list \<Rightarrow> (jsstring \<times> token) list" where
  "dedupe P out =
     foldl (\<lambda>m t. map_set (toUpperCase P (symbol t)) (t\<lparr>symbol := toUpperCase P (symbol t)\<rparr>) m)
       [] out"

text \<open>
  \<^verbatim>\<open>Array.prototype.sort\<close> with a comparator is stable, and for a consistent
  comparator its result is the sorted arrangement, which stability makes unique; a stable
  insertion sort computes it.
\<close>

fun insort_cmp :: "('a \<Rightarrow> 'a \<Rightarrow> int) \<Rightarrow> 'a \<Rightarrow> 'a list \<Rightarrow> 'a list" where
  "insort_cmp cmp x [] = [x]"
| "insort_cmp cmp x (y # ys) = (if cmp x y \<le> 0 then x # y # ys else y # insort_cmp cmp x ys)"

definition sort_cmp :: "('a \<Rightarrow> 'a \<Rightarrow> int) \<Rightarrow> 'a list \<Rightarrow> 'a list" where
  "sort_cmp cmp xs = foldr (insort_cmp cmp) xs []"

definition parsePrices :: "platform \<Rightarrow> json \<Rightarrow> error + token list" where
  "parsePrices P data =
     (case pushAll P [] (candidates data) of
        Inl e \<Rightarrow> Inl e
      | Inr out \<Rightarrow>
          Inr (sort_cmp (\<lambda>a b. localeCompare P (symbol a) (symbol b)) (map snd (dedupe P out))))"

text \<open>
  A token list handed back to the normalizer as a feed: an array of records with the
  fields of \<^verbatim>\<open>Token\<close>.
\<close>

definition tokenJson :: "token \<Rightarrow> json" where
  "tokenJson t =
     JObj [(str ''symbol'', JStr (symbol t)), (str ''price'', JNum (price t)),
           (str ''iconUrl'', JStr (icon t))]"

definition reinject :: "token list \<Rightarrow> json" where
  "reinject ts = JArr (map tokenJson ts)"

subsection \<open>Quotes\<close>

text \<open>
  \<^verbatim>\<open>
  const priceIn = tokenIn?.price ?? NaN
  const priceOut = tokenOut?.price ?? NaN
  const rate = useMemo(() => {
    if (!Number.isFinite(priceIn) || !Number.isFinite(priceOut) || priceOut <= 0) return NaN
    return priceIn / priceOut
  }, [priceIn, priceOut])
  const amountOut = useMemo(() => {
    if (!Number.isFinite(rate) || !Number.isFinite(debouncedAmountIn)) return NaN
    if (debouncedAmountIn <= 0) return NaN
    return debouncedAmountIn * rate
  }, [rate, debouncedAmountIn])
  const minReceived = useMemo(() => {
    if (!Number.isFinite(amountOut)) return NaN
    return amountOut * (1 - slippageBps / 10000)
  }, [amountOut, slippageBps])
  const inputUSD = Number.isFinite(amountIn) && Number.isFinite(priceIn) ? amountIn * priceIn : NaN
  const outputUSD = Number.isFinite(amountOut) && Number.isFinite(priceOut) ? amountOut * priceOut : NaN
  \<close>
  Each derived value is a function of the pieces of component state it is computed from;
  a selected token is \<open>Some t\<close>, \<^verbatim>\<open>null\<close> is \<open>None\<close>.
\<close>

definition priceIn :: "token option \<Rightarrow> jsnum" where
  "priceIn tokenIn = (case tokenIn of None \<Rightarrow> NaN | Some t \<Rightarrow> price t)"

definition priceOut :: "token option \<Rightarrow> jsnum" where
  "priceOut tokenOut = (case tokenOut of None \<Rightarrow> NaN | Some t \<Rightarrow> price t)"

definition rate :: "token option \<Rightarrow> token option \<Rightarrow> jsnum" where
  "rate tokenIn tokenOut =
     (if \<not> isFinite (priceIn tokenIn) \<or> \<not> isFinite (priceOut tokenOut)
         \<or> js_le (priceOut tokenOut) (Fin 0)
      then NaN
      else fdiv (priceIn tokenIn) (priceOut tokenOut))"

definition amountOut :: "token option \<Rightarrow> token option \<Rightarrow> jsnum \<Rightarrow> jsnum" where
  "amountOut tokenIn tokenOut debouncedAmountIn =
     (if \<not> isFinite (rate tokenIn tokenOut) \<or> \<not> isFinite debouncedAmountIn then NaN
      else if js_le debouncedAmountIn (Fin 0) then NaN
      else fmul debouncedAmountIn (rate tokenIn tokenOut))"

definition minReceived :: "token option \<Rightarrow> token option \<Rightarrow> jsnum \<Rightarrow> jsnum \<Rightarrow> jsnum" where
  "minReceived tokenIn tokenOut debouncedAmountIn slippageBps =
     (if \<not> isFinite (amountOut tokenIn tokenOut debouncedAmountIn) then NaN
      else fmul (amountOut tokenIn tokenOut debouncedAmountIn)
             (fsub (Fin 1) (fdiv slippageBps (Fin 10000))))"

definition inputUSD :: "token option \<Rightarrow> jsnum \<Rightarrow> jsnum" where
  "inputUSD tokenIn amountIn =
     (if isFinite amountIn \<and> isFinite (priceIn tokenIn) then fmul amountIn (priceIn tokenIn)
      else NaN)"

definition outputUSD :: "token option \<Rightarrow> token option \<Rightarrow> jsnum \<Rightarrow> jsnum" where
  "outputUSD tokenIn tokenOut debouncedAmountIn =
     (if isFinite (amountOut tokenIn tokenOut debouncedAmountIn) \<and> isFinite (priceOut tokenOut)
      then fmul (amountOut tokenIn tokenOut debouncedAmountIn) (priceOut tokenOut)
      else NaN)"

subsection \<open>Validation\<close>

text \<open>
  \<^verbatim>\<open>
  const balances = useMemo(() => {
    const m = new Map<string, number>()
    for (const t of tokens ?? []) m.set(t.symbol, pseudoBalance(t.symbol))
    return m
  }, [tokens])
  const balanceIn = tokenIn ? balances.get(tokenIn.symbol) ?? 0 : 0
  \<close>
\<close>

definition balances :: "token list option \<Rightarrow> (jsstring \<rightharpoonup> jsnum)" where
  "balances tokens =
     foldl (\<lambda>m t. m(symbol t \<mapsto> pseudoBalance (symbol t))) Map.empty
       (case tokens of None \<Rightarrow> [] | Some ts \<Rightarrow> ts)"

definition balanceIn :: "token list option \<Rightarrow> token option \<Rightarrow> jsnum" where
  "balanceIn tokens tokenIn =
     (case tokenIn of
        None \<Rightarrow> Fin 0
      | Some t \<Rightarrow> (case balances tokens (symbol t) of None \<Rightarrow> Fin 0 | Some b \<Rightarrow> b))"

text \<open>
  \<^verbatim>\<open>
  const validation = useMemo(() => {
    if (!tokenIn || !tokenOut) return { ok: false, msg: 'Pick tokens' }
    if (tokenIn.symbol === tokenOut.symbol) return { ok: false, msg: 'Pick two different tokens' }
    if (!amountInRaw.trim()) return { ok: false, msg: 'Enter an amount' }
    if (!Number.isFinite(amountIn) || amountIn <= 0) return { ok: false, msg: 'Enter a valid amount' }
    if (amountIn > balanceIn) return { ok: false, msg: 'Insufficient balance' }
    if (!Number.isFinite(amountOut) || amountOut <= 0) return { ok: false, msg: 'Unable to quote price' }
    return { ok: true, msg: '' }
  }, [tokenIn, tokenOut, amountInRaw, amountIn, balanceIn, amountOut])
  \<close>
  The six dependencies are the arguments, in the order of the dependency list.
\<close>

record verdict =
  ok :: bool
  msg :: jsstring

definition validation ::
  "token option \<Rightarrow> token option \<Rightarrow> jsstring \<Rightarrow> jsnum \<Rightarrow> jsnum \<Rightarrow> jsnum \<Rightarrow> verdict" where
  "validation tokenIn tokenOut amountInRaw amountIn balIn amtOut =
     (if tokenIn = None \<or> tokenOut = None then \<lparr>ok = False, msg = str ''Pick tokens''\<rparr>
      else if symbol (the tokenIn) = symbol (the tokenOut)
        then \<lparr>ok = False, msg = str ''Pick two different tokens''\<rparr>
      else if trim amountInRaw = [] then \<lparr>ok = False, msg = str ''Enter an amount''\<rparr>
      else if \<not> isFinite amountIn \<or> js_le amountIn (Fin 0)
        then \<lparr>ok = False, msg = str ''Enter a valid amount''\<rparr>
      else if js_gt amountIn balIn then \<lparr>ok = False, msg = str ''Insufficient balance''\<rparr>
      else if \<not> isFinite amtOut \<or> js_le amtOut (Fin 0)
        then \<lparr>ok = False, msg = str ''Unable to quote price''\<rparr>
      else \<lparr>ok = True, msg = []\<rparr>)"

section \<open>The specification's reading of the engine\<close>

text \<open>
  The balance simulator as the specification words it: fold the character codes through
  the base-31 multiply-and-add hash kept in the unsigned 32-bit range, reduce modulo 9500,
  divide by 100, and take at least 1.
\<close>

definition hash31 :: "jsstring \<Rightarrow> nat" where
  "hash31 s = foldl (\<lambda>h c. (h * 31 + unat c) mod 2 ^ 32) 0 s"

definition balanceFor_spec :: "jsstring \<Rightarrow> real" where
  "balanceFor_spec s = max 1 (real (hash31 s mod 9500) / 100)"

text \<open>
  The validator as the specification words it: six rules in priority order, each a
  condition that must hold and the reason reported when it does not; the verdict is that
  of the first rule that fails, and \<open>ok\<close> when none does.
\<close>

definition validatorRules ::
  "token option \<Rightarrow> token option \<Rightarrow> jsstring \<Rightarrow> jsnum \<Rightarrow> jsnum \<Rightarrow> jsnum \<Rightarrow> (bool \<times> jsstring) list" where
  "validatorRules tokenIn tokenOut amountInText amountIn balIn amtOut =
     [(tokenIn \<noteq> None \<and> tokenOut \<noteq> None, str ''Pick tokens''),
      (map_option symbol tokenIn \<noteq> map_option symbol tokenOut, str ''Pick two different tokens''),
      (trim amountInText \<noteq> [], str ''Enter an amount''),
      (isFinite amountIn \<and> js_gt amountIn (Fin 0), str ''Enter a valid amount''),
      (js_le amountIn balIn, str ''Insufficient balance''),
      (isFinite amtOut \<and> js_gt amtOut (Fin 0), str ''Unable to quote price'')]"

definition firstFailure :: "(bool \<times> jsstring) list \<Rightarrow> verdict" where
  "firstFailure rules =
     (case find (\<lambda>r. \<not> fst r) rules of
        None \<Rightarrow> \<lparr>ok = True, msg = []\<rparr>
      | Some r \<Rightarrow> \<lparr>ok = False, msg = snd r\<rparr>)"

text \<open>
  The entries of a feed that \<open>push\<close> does not reject, in iteration order, each with the
  trimmed symbol as the feed spells it and the price as a number. \<open>symbolOf\<close> is the value
  of the local constant \<^verbatim>\<open>symbol\<close> of \<open>push\<close>; where its computation throws there is no
  entry.
\<close>

definition symbolOf :: "platform \<Rightarrow> json option \<Rightarrow> jsstring" where
  "symbolOf P symRaw = (case pushSymbol P symRaw of Inl e \<Rightarrow> [] | Inr symb \<Rightarrow> symb)"

fun acceptedOf :: "platform \<Rightarrow> (error + (json option \<times> json option)) list \<Rightarrow> (jsstring \<times> jsnum) list" where
  "acceptedOf P [] = []"
| "acceptedOf P (Inl e # cs) = acceptedOf P cs"
| "acceptedOf P (Inr (s, p) # cs) =
     (if rejected (symbolOf P s) (pushPrice p) then acceptedOf P cs
      else (symbolOf P s, asNumber (pushPrice p)) # acceptedOf P cs)"

text \<open>
  The feed as the specification describes it (sections 3 and 4.1). An array feed is an
  ordered sequence of records, each with a symbol field (\<^verbatim>\<open>currency\<close> preferred,
  \<^verbatim>\<open>symbol\<close> as the fallback when \<^verbatim>\<open>currency\<close> is missing or null) and a
  \<^verbatim>\<open>price\<close> field; a keyed feed maps each symbol to a bare price or to an object whose
  \<^verbatim>\<open>price\<close> field is the price. An occurrence of a symbol is one entry of the feed, with
  the symbol as trimmed text and the price coerced to a number (a number is itself, a
  string is parsed numerically, anything else is not a number). An occurrence is valid
  when the symbol is not empty and the price is a finite number above 0.
\<close>

definition fieldOf :: "json \<Rightarrow> string \<Rightarrow> json option" where
  "fieldOf row name = (case row of JObj props \<Rightarrow> map_of props (str name) | _ \<Rightarrow> None)"

definition symbolField :: "json \<Rightarrow> json option" where
  "symbolField row =
     (case fieldOf row ''currency'' of
        None \<Rightarrow> fieldOf row ''symbol''
      | Some JNull \<Rightarrow> fieldOf row ''symbol''
      | Some v \<Rightarrow> Some v)"

definition keyedPrice :: "json \<Rightarrow> json" where
  "keyedPrice v = (case fieldOf v ''price'' of Some p \<Rightarrow> p | None \<Rightarrow> v)"

definition specEntries :: "json \<Rightarrow> (json option \<times> json option) list" where
  "specEntries data =
     (case data of
        JArr rows \<Rightarrow> map (\<lambda>r. (symbolField r, fieldOf r ''price'')) rows
      | JObj entries \<Rightarrow> map (\<lambda>kv. (Some (JStr (fst kv)), Some (keyedPrice (snd kv)))) entries
      | _ \<Rightarrow> [])"

definition specSymbol :: "platform \<Rightarrow> json option \<Rightarrow> jsstring" where
  "specSymbol P field =
     (case field of
        None \<Rightarrow> []
      | Some (JStr s) \<Rightarrow> trim s
      | Some v \<Rightarrow>
          (if truthy (Some v) then (case ToString P v of Inr s \<Rightarrow> trim s | Inl e \<Rightarrow> []) else []))"

definition specPrice :: "json option \<Rightarrow> jsnum" where
  "specPrice field =
     (case field of Some (JNum n) \<Rightarrow> n | Some (JStr s) \<Rightarrow> Number s | _ \<Rightarrow> NaN)"

definition occurrences :: "platform \<Rightarrow> json \<Rightarrow> (jsstring \<times> jsnum) list" where
  "occurrences P data = map (\<lambda>e. (specSymbol P (fst e), specPrice (snd e))) (specEntries data)"

definition validOccurrence :: "jsstring \<times> jsnum \<Rightarrow> bool" where
  "validOccurrence occ \<longleftrightarrow> fst occ \<noteq> [] \<and> isFinite (snd occ) \<and> js_gt (snd occ) (Fin 0)"

text \<open>
  The characters of an icon reference: the unreserved set, the percent sign of an escape,
  and the colon and slash of the fixed prefix.
\<close>

definition isUrlChar :: "16 word \<Rightarrow> bool" where
  "isUrlChar c \<longleftrightarrow> isUriUnreserved c \<or> c = 0x25 \<or> c = 0x3A \<or> c = 0x2F"

text \<open>
  What the normalizer relies on from the engine. A comparator handed to
  \<^verbatim>\<open>sort\<close> must be a consistent comparison function (ECMA-262): \<open>cmp a a\<close> is 0,
  \<open>cmp a b = 0\<close> is symmetric and transitive, and \<open>cmp a b < 0\<close> and \<open>cmp a b > 0\<close> are
  transitive. ECMA-262 requires \<^verbatim>\<open>localeCompare\<close> to be one; it may return 0 on two
  different strings (it must on canonically equivalent ones).
  Unicode upper-casing is idempotent, maps trimmed non-empty text to trimmed non-empty
  text, and maps well-formed UTF-16 (text that \<^verbatim>\<open>encodeURIComponent\<close> accepts) to
  well-formed UTF-16.
\<close>

definition consistentComparator :: "(jsstring \<Rightarrow> jsstring \<Rightarrow> int) \<Rightarrow> bool" where
  "consistentComparator cmp \<longleftrightarrow>
     (\<forall>a. cmp a a = 0) \<and>
     (\<forall>a b. cmp a b = 0 \<longrightarrow> cmp b a = 0) \<and>
     (\<forall>a b c. cmp a b = 0 \<and> cmp b c = 0 \<longrightarrow> cmp a c = 0) \<and>
     (\<forall>a b c. cmp a b < 0 \<and> cmp b c < 0 \<longrightarrow> cmp a c < 0) \<and>
     (\<forall>a b c. 0 < cmp a b \<and> 0 < cmp b c \<longrightarrow> 0 < cmp a c)"

definition upperIdempotent :: "platform \<Rightarrow> bool" where
  "upperIdempotent P \<longleftrightarrow> (\<forall>s. toUpperCase P (toUpperCase P s) = toUpperCase P s)"

definition upperKeepsTrimmed :: "platform \<Rightarrow> bool" where
  "upperKeepsTrimmed P \<longleftrightarrow>
     (\<forall>s. s \<noteq> [] \<and> trim s = s \<longrightarrow> toUpperCase P s \<noteq> [] \<and> trim (toUpperCase P s) = toUpperCase P s)"

definition upperKeepsWellFormed :: "platform \<Rightarrow> bool" where
  "upperKeepsWellFormed P \<longleftrightarrow>
     (\<forall>s. isl (encodeURIComponent s) \<or> \<not> isl (encodeURIComponent (toUpperCase P s)))"

text \<open>
  An engine for the examples: text outside ASCII is left as it is by upper-casing, strings
  compare by code units, and a number used as a symbol is rendered as the empty string
  (no example has one).
\<close>

fun codeUnitCompare :: "jsstring \<Rightarrow> jsstring \<Rightarrow> int" where
  "codeUnitCompare [] [] = 0"
| "codeUnitCompare [] (y # ys) = - 1"
| "codeUnitCompare (x # xs) [] = 1"
| "codeUnitCompare (x # xs) (y # ys) =
     (if x < y then - 1 else if y < x then 1 else codeUnitCompare xs ys)"

definition examplePlatform :: platform where
  "examplePlatform =
     \<lparr>upperNonAscii = (\<lambda>s. s), localeCompare = codeUnitCompare, numberToString = (\<lambda>n. [])\<rparr>"

text \<open>
  A second engine, whose \<^verbatim>\<open>localeCompare\<close> ignores control characters (U+0000..U+0008,
  U+000E..U+001F, U+007F..U+009F) as the collation of the engines in use does, and
  compares what is left by code units.
\<close>

definition isIgnorable :: "16 word \<Rightarrow> bool" where
  "isIgnorable c \<longleftrightarrow> c \<le> 0x08 \<or> (0x0E \<le> c \<and> c \<le> 0x1F) \<or> (0x7F \<le> c \<and> c \<le> 0x9F)"

definition collationCompare :: "jsstring \<Rightarrow> jsstring \<Rightarrow> int" where
  "collationCompare a b =
     codeUnitCompare (filter (\<lambda>c. \<not> isIgnorable c) a) (filter (\<lambda>c. \<not> isIgnorable c) b)"

definition collatingPlatform :: platform where
  "collatingPlatform =
     \<lparr>upperNonAscii = (\<lambda>s. s), localeCompare = collationCompare, numberToString = (\<lambda>n. [])\<rparr>"

section \<open>Example states\<close>

definition BTC :: token where
  "BTC = \<lparr>symbol = str ''BTC'', price = Fin 50000,
          icon = str ''https://raw.githubusercontent.com/Switcheo/token-icons/main/tokens/BTC.svg''\<rparr>"

definition ETH :: token where
  "ETH = \<lparr>symbol = str ''ETH'', price = Fin 3000,
          icon = str ''https://raw.githubusercontent.com/Switcheo/token-icons/main/tokens/ETH.svg''\<rparr>"

definition exampleFeed :: json where
  "exampleFeed =
     JObj [(str ''ETH'', JNum (Fin 3000)), (str ''BTC'', JNum (Fin 50000)),
           (str ''x'', JNum (Fin (- 1)))]"

definition usdtFeed :: json where
  "usdtFeed =
     JArr [JObj [(str ''currency'', JStr (str ''usdt'')), (str ''price'', JStr (str ''1.00''))],
           JObj [(str ''currency'', JStr (str ''USDT'')), (str ''price'', JNum (Fin 2))]]"

definition USDT :: token where
  "USDT = \<lparr>symbol = str ''USDT'', price = Fin 2,
           icon = str ''https://raw.githubusercontent.com/Switcheo/token-icons/main/tokens/USDT.svg''\<rparr>"

definition keyedFeed :: json where
  "keyedFeed =
     JObj [(str ''usdt'', JStr (str ''1.00'')),
           (str ''USDT'', JObj [(str ''price'', JNum (Fin 2))]),
           (str ''x'', JNum (Fin (- 1)))]"

definition rejectedLastFeed :: json where
  "rejectedLastFeed =
     JArr [JObj [(str ''currency'', JStr (str ''usdt'')), (str ''price'', JNum (Fin 2))],
           JObj [(str ''currency'', JStr (str ''USDT'')), (str ''price'', JNum (Fin (- 1)))]]"

definition allRejectedFeed :: json where
  "allRejectedFeed =
     JArr [JObj [(str ''currency'', JStr (str ''usdt'')), (str ''price'', JNum (Fin 0))],
           JObj [(str ''currency'', JStr (str ''USDT'')), (str ''price'', JNum (Fin (- 1)))]]"

definition usdtFirst :: token where
  "usdtFirst = \<lparr>symbol = str ''USDT'', price = Fin 2,
           icon = str ''https://raw.githubusercontent.com/Switcheo/token-icons/main/tokens/usdt.svg''\<rparr>"

definition controlFeed :: json where
  "controlFeed = JObj [([0x41, 0x02], JNum (Fin 1)), (str ''A'', JNum (Fin 2))]"

definition tokenAControl :: token where
  "tokenAControl = \<lparr>symbol = [0x41, 0x02], price = Fin 1,
           icon = str ''https://raw.githubusercontent.com/Switcheo/token-icons/main/tokens/A%02.svg''\<rparr>"

definition tokenA :: token where
  "tokenA = \<lparr>symbol = str ''A'', price = Fin 2,
           icon = str ''https://raw.githubusercontent.com/Switcheo/token-icons/main/tokens/A.svg''\<rparr>"

definition toStringFeed :: json where
  "toStringFeed =
     JArr [JObj [(str ''currency'', JObj [(str ''toString'', JNum (Fin 1))]),
                 (str ''price'', JNum (Fin 1))]]"

definition lowerFeed :: json where
  "lowerFeed = JObj [(str ''usdt'', JNum (Fin 1))]"

definition upperFeed :: json where
  "upperFeed = JObj [(str ''USDT'', JNum (Fin 1))]"

definition usdtLowerIcon :: token where
  "usdtLowerIcon = \<lparr>symbol = str ''USDT'', price = Fin 1,
           icon = str ''https://raw.githubusercontent.com/Switcheo/token-icons/main/tokens/usdt.svg''\<rparr>"

definition usdtUpperIcon :: token where
  "usdtUpperIcon = \<lparr>symbol = str ''USDT'', price = Fin 1,
           icon = str ''https://raw.githubusercontent.com/Switcheo/token-icons/main/tokens/USDT.svg''\<rparr>"

text \<open>A token with its icon reference derived afresh from its symbol.\<close>

definition refreshIcon :: "token \<Rightarrow> token" where
  "refreshIcon t = t\<lparr>icon := (case iconUrl (symbol t) of Inr u \<Rightarrow> u | Inl e \<Rightarrow> icon t)\<rparr>"

text \<open>
  A token in canonical form: a trimmed, non-empty, upper-case symbol that
  \<^verbatim>\<open>encodeURIComponent\<close> accepts, and a finite positive price.
\<close>

definition canonical :: "platform \<Rightarrow> token \<Rightarrow> bool" where
  "canonical P t \<longleftrightarrow> symbol t \<noteq> [] \<and> trim (symbol t) = symbol t
     \<and> toUpperCase P (symbol t) = symbol t \<and> (\<exists>r. price t = Fin r \<and> 0 < r)
     \<and> \<not> isl (iconUrl (symbol t))"

section \<open>Properties of the number model\<close>

lemma fl_not_NaN: "fl r \<noteq> NaN"
  by (simp add: fl_def)

lemma fl_Fin_bound: "fl r = Fin x \<Longrightarrow> \<bar>x\<bar> < 2 ^ 1024 - 2 ^ 970 \<and> \<bar>x\<bar> \<le> \<bar>r\<bar>"
  by (auto simp: fl_def split: if_splits)

lemma fl_Fin_cases: "\<bar>r\<bar> < 2 ^ 1024 - 2 ^ 970 \<Longrightarrow> fl r = Fin r \<or> fl r = Fin 0"
  by (simp add: fl_def)

lemma fl_in_range: "\<bar>r\<bar> < 2 ^ 1024 - 2 ^ 970 \<Longrightarrow> 1 / 2 ^ 1075 < \<bar>r\<bar> \<Longrightarrow> fl r = Fin r"
  by (simp add: fl_def)

lemma fl_zero: "fl 0 = Fin 0"
  by (simp add: fl_def)

lemma js_gt_0_iff: "isFinite a \<Longrightarrow> js_gt a (Fin 0) \<longleftrightarrow> \<not> js_le a (Fin 0)"
  by (cases a) (auto simp: js_gt_def)

lemma js_gt_le_Fin: "b \<noteq> NaN \<Longrightarrow> js_gt (Fin a) b \<longleftrightarrow> \<not> js_le (Fin a) b"
  by (cases b) (auto simp: js_gt_def)

section \<open>Simulated balances\<close>

lemma unat_hash_step:
  "unat ((x :: 32 word) * 31 + ucast (c :: 16 word)) = (unat x * 31 + unat c) mod 2 ^ 32"
proof -
  have "unat (ucast c :: 32 word) = unat c"
    by (simp add: unsigned_ucast_eq take_bit_nat_eq_self_iff)
       (rule less_trans[OF unsigned_less], simp)
  then show ?thesis
    by (simp add: unat_word_ariths mod_simps)
qed

lemma unat_hash_fold:
  "unat (foldl (\<lambda>x c. x * 31 + ucast c) (w :: 32 word) (s :: jsstring))
     = foldl (\<lambda>h c. (h * 31 + unat c) mod 2 ^ 32) (unat w) s"
  by (induction s arbitrary: w) (simp_all add: unat_hash_step)

lemma fl_centi: "k < 9500 \<Longrightarrow> fl (real k / 100) = Fin (real k / 100)"
proof (cases "k = 0")
  case True
  then show ?thesis by (simp add: fl_zero)
next
  case False
  assume k: "k < 9500"
  from False have "1 \<le> real k" by simp
  then have lo: "1 / 100 \<le> real k / 100" by simp
  have "(1::real) / 2 ^ 1075 < 1 / 100" by simp
  with lo have a: "1 / 2 ^ 1075 < \<bar>real k / 100\<bar>" by linarith
  from k have "real k / 100 < 95" by simp
  moreover have "(95::real) < 2 ^ 1024 - 2 ^ 970" by simp
  ultimately have b: "\<bar>real k / 100\<bar> < 2 ^ 1024 - 2 ^ 970" by simp
  from b a show ?thesis by (rule fl_in_range)
qed

lemma pseudoBalance_value: "pseudoBalance s = Fin (balanceFor_spec s)"
proof -
  define k where "k = hash31 s mod 9500"
  have k: "k < 9500" by (simp add: k_def)
  have "unat (foldl (\<lambda>x c. x * 31 + ucast c) (0 :: 32 word) s) = hash31 s"
    by (simp add: unat_hash_fold hash31_def)
  then have "pseudoBalance s = math_max (Fin 1) (fl (real k / 100))"
    by (simp add: pseudoBalance_def k_def Let_def)
  also have "\<dots> = math_max (Fin 1) (Fin (real k / 100))"
    using k by (simp add: fl_centi)
  also have "\<dots> = Fin (max 1 (real k / 100))"
    by (simp add: max_def)
  finally show ?thesis by (simp add: balanceFor_spec_def k_def)
qed

lemma balances_fold_not_NaN:
  "(\<And>k b. m k = Some b \<Longrightarrow> b \<noteq> NaN)
   \<Longrightarrow> foldl (\<lambda>m t. m(symbol t \<mapsto> pseudoBalance (symbol t))) m ts k = Some b \<Longrightarrow> b \<noteq> NaN"
proof (induction ts arbitrary: m)
  case Nil
  then show ?case by simp
next
  case (Cons t ts)
  show ?case
  proof (rule Cons.IH[where m = "m(symbol t \<mapsto> pseudoBalance (symbol t))"])
    fix k' b'
    assume "(m(symbol t \<mapsto> pseudoBalance (symbol t))) k' = Some b'"
    then show "b' \<noteq> NaN"
      using Cons.prems(1) by (auto simp: pseudoBalance_value split: if_splits)
  next
    show "foldl (\<lambda>m t. m(symbol t \<mapsto> pseudoBalance (symbol t)))
            (m(symbol t \<mapsto> pseudoBalance (symbol t))) ts k = Some b"
      using Cons.prems(2) by (simp only: foldl_Cons)
  qed
qed

lemma balanceIn_not_NaN: "balanceIn tokens tokenIn \<noteq> NaN"
proof (cases tokenIn)
  case None
  then show ?thesis by (simp add: balanceIn_def)
next
  case (Some t)
  show ?thesis
  proof (cases "balances tokens (symbol t)")
    case None
    then show ?thesis using Some by (simp add: balanceIn_def)
  next
    case (Some b)
    then have "b \<noteq> NaN"
      unfolding balances_def by (rule balances_fold_not_NaN[rotated]) simp
    then show ?thesis using Some \<open>tokenIn = Some t\<close> by (simp add: balanceIn_def)
  qed
qed

text \<open>
  C9. \<open>pseudoBalance\<close> is a function of the symbol alone, and its value is the one the
  specification describes: the character codes folded through the base-31 hash modulo
  \<open>2^32\<close>, reduced modulo 9500, divided by 100, and raised to at least 1; so the balance
  of every symbol is a finite number not below 1.
\<close>

theorem pseudoBalance_spec:
  "pseudoBalance s = Fin (balanceFor_spec s) \<and> 1 \<le> balanceFor_spec s"
  by (simp add: pseudoBalance_value balanceFor_spec_def)

theorem pseudoBalance_spec_witness:
  "pseudoBalance (str ''BTC'') = Fin (9097 / 100) \<and> (1::real) \<le> 9097 / 100"
  using pseudoBalance_spec[of "str ''BTC''"]
  by (simp add: balanceFor_spec_def hash31_def str_def)

section \<open>Amount parsing\<close>

text \<open>
  C10. The amount parser removes every comma, trims white space, and returns NaN when
  nothing is left or when the rest does not convert to a finite number; otherwise it
  returns the converted number. \<^verbatim>\<open>"1,000"\<close> parses to 1000; the empty text and the
  text of three spaces parse to NaN, not to 0.
\<close>

theorem safeParseNumber_spec:
  "safeParseNumber v =
     (let cleaned = trim (filter (\<lambda>c. c \<noteq> 0x2C) v)
      in if cleaned \<noteq> [] \<and> isFinite (Number cleaned) then Number cleaned else NaN)
   \<and> safeParseNumber (str ''1,000'') = Fin 1000
   \<and> safeParseNumber (str '''') = NaN
   \<and> safeParseNumber (str ''   '') = NaN"
proof -
  have a: "safeParseNumber v =
     (let cleaned = trim (filter (\<lambda>c. c \<noteq> 0x2C) v)
      in if cleaned \<noteq> [] \<and> isFinite (Number cleaned) then Number cleaned else NaN)"
    by (simp add: safeParseNumber_def Let_def)
  have b: "safeParseNumber (str ''1,000'') = Fin 1000"
    by (simp add: safeParseNumber_def str_def trim_def isWhiteSpace_def Number_def
        parseNonDecimal_def roundLiteral_def parseUnsignedDecimal_def parseExponent_def
        isDecimalDigit_def digitsValue_def digitVal_def fl_def)
  have c: "safeParseNumber (str '''') = NaN"
    by (simp add: safeParseNumber_def str_def trim_def)
  have d: "safeParseNumber (str ''   '') = NaN"
    by (simp add: safeParseNumber_def str_def trim_def isWhiteSpace_def)
  from a b c d show ?thesis by blast
qed

theorem safeParseNumber_spec_witness:
  "safeParseNumber (str ''2.5'') = Fin (5 / 2)"
  using safeParseNumber_spec[of "str ''2.5''"]
  by (simp add: str_def trim_def isWhiteSpace_def Number_def
      parseNonDecimal_def roundLiteral_def parseUnsignedDecimal_def parseExponent_def
      isDecimalDigit_def digitsValue_def digitVal_def fl_def)

section \<open>Quotes\<close>

lemma priceIn_BTC: "priceIn (Some BTC) = Fin 50000"
  by (simp add: priceIn_def BTC_def)

lemma priceOut_ETH: "priceOut (Some ETH) = Fin 3000"
  by (simp add: priceOut_def ETH_def)

lemma rate_eq:
  "rate tokenIn tokenOut =
     (if isFinite (priceIn tokenIn) \<and> isFinite (priceOut tokenOut) \<and> js_gt (priceOut tokenOut) (Fin 0)
      then fdiv (priceIn tokenIn) (priceOut tokenOut) else NaN)"
  by (auto simp: rate_def js_gt_0_iff)

lemma amountOut_eq:
  "amountOut tokenIn tokenOut a =
     (if isFinite (rate tokenIn tokenOut) \<and> isFinite a \<and> js_gt a (Fin 0)
      then fmul a (rate tokenIn tokenOut) else NaN)"
  by (auto simp: amountOut_def js_gt_0_iff)

lemma amountOut_Fin_bound:
  assumes "amountOut tokenIn tokenOut a = Fin x"
  shows "\<bar>x\<bar> < 2 ^ 1024 - 2 ^ 970"
proof -
  from assms obtain r d where "rate tokenIn tokenOut = Fin r" "a = Fin d" "fl (d * r) = Fin x"
    by (cases "rate tokenIn tokenOut"; cases a) (auto simp: amountOut_def split: if_splits)
  then show ?thesis using fl_Fin_bound by blast
qed

lemma slippage_factor:
  assumes "0 \<le> b" "b \<le> 200"
  shows "\<exists>f. fsub (Fin 1) (fdiv (Fin b) (Fin 10000)) = Fin f \<and> 0 \<le> f \<and> f \<le> 1"
proof -
  have small: "\<bar>b / 10000\<bar> < 2 ^ 1024 - 2 ^ 970"
  proof -
    have "\<bar>b / 10000\<bar> \<le> 1" using assms by simp
    moreover have "(1::real) < 2 ^ 1024 - 2 ^ 970" by simp
    ultimately show ?thesis by linarith
  qed
  have "fl (b / 10000) = Fin (b / 10000) \<or> fl (b / 10000) = Fin 0"
    using small by (rule fl_Fin_cases)
  moreover have "0 \<le> b / 10000" "b / 10000 \<le> 1 / 50" using assms by simp_all
  ultimately have "\<exists>y. fl (b / 10000) = Fin y \<and> 0 \<le> y \<and> y \<le> 1 / 50"
    by auto
  then obtain y where y: "fdiv (Fin b) (Fin 10000) = Fin y" "0 \<le> y" "y \<le> 1 / 50"
    by auto
  have one: "(1::real) < 2 ^ 1024 - 2 ^ 970" by simp
  have tiny: "(1::real) / 2 ^ 1075 < 49 / 50" by simp
  have "fl (1 - y) = Fin (1 - y)"
    using y one tiny by (simp add: fl_def)
  then show ?thesis using y by auto
qed

lemma fmul_Fin_factor:
  assumes "\<bar>x\<bar> < 2 ^ 1024 - 2 ^ 970" "0 \<le> f" "f \<le> 1"
  shows "isFinite (fmul (Fin x) (Fin f))"
proof -
  have "\<bar>x * f\<bar> = \<bar>x\<bar> * f" using assms by (simp add: abs_mult)
  also have "\<dots> \<le> \<bar>x\<bar> * 1" using assms by (intro mult_left_mono) auto
  finally have "\<bar>x * f\<bar> < 2 ^ 1024 - 2 ^ 970" using assms by simp
  then show ?thesis by (simp add: fl_def)
qed

lemma minReceived_PInf:
  "amountOut tokenIn tokenOut d = PInf \<Longrightarrow> minReceived tokenIn tokenOut d s = NaN"
  by (simp add: minReceived_def)

lemma rate_BTC_ETH: "rate (Some BTC) (Some ETH) = Fin (50 / 3)"
  by (simp add: rate_def priceIn_BTC priceOut_ETH fl_def)

lemma amountOut_2: "amountOut (Some BTC) (Some ETH) (Fin 2) = Fin (100 / 3)"
  by (simp add: amountOut_def rate_BTC_ETH fl_def)

text \<open>
  C1, as the code has it. For every selection, amount and slippage of 0 to 200 basis
  points: \<open>rate\<close> is \<open>priceIn / priceOut\<close> when both prices are finite and the output
  price is strictly positive, and NaN otherwise; \<open>amountOut\<close> is \<open>amountIn * rate\<close> when
  the rate is finite and the amount is finite and strictly positive, and NaN otherwise
  (so a zero or negative amount gives NaN, not 0); \<open>minReceived\<close> is
  \<open>amountOut * (1 - slippageBps / 10000)\<close> when \<open>amountOut\<close> is finite, and it is NaN
  exactly when \<open>amountOut\<close> is not finite, that is NaN or an infinity.
\<close>

theorem quote_spec:
  assumes "0 \<le> b" and "b \<le> 200"
  shows "rate tokenIn tokenOut =
           (if isFinite (priceIn tokenIn) \<and> isFinite (priceOut tokenOut)
               \<and> js_gt (priceOut tokenOut) (Fin 0)
            then fdiv (priceIn tokenIn) (priceOut tokenOut) else NaN)
       \<and> amountOut tokenIn tokenOut a =
           (if isFinite (rate tokenIn tokenOut) \<and> isFinite a \<and> js_gt a (Fin 0)
            then fmul a (rate tokenIn tokenOut) else NaN)
       \<and> minReceived tokenIn tokenOut a (Fin b) =
           (if isFinite (amountOut tokenIn tokenOut a)
            then fmul (amountOut tokenIn tokenOut a) (fsub (Fin 1) (fdiv (Fin b) (Fin 10000)))
            else NaN)
       \<and> (minReceived tokenIn tokenOut a (Fin b) = NaN
            \<longleftrightarrow> \<not> isFinite (amountOut tokenIn tokenOut a))"
proof -
  have m: "minReceived tokenIn tokenOut a (Fin b) =
           (if isFinite (amountOut tokenIn tokenOut a)
            then fmul (amountOut tokenIn tokenOut a) (fsub (Fin 1) (fdiv (Fin b) (Fin 10000)))
            else NaN)"
    by (simp add: minReceived_def)
  have n: "minReceived tokenIn tokenOut a (Fin b) = NaN
            \<longleftrightarrow> \<not> isFinite (amountOut tokenIn tokenOut a)"
  proof (cases "amountOut tokenIn tokenOut a")
    case (Fin x)
    from assms obtain f where f: "fsub (Fin 1) (fdiv (Fin b) (Fin 10000)) = Fin f" "0 \<le> f" "f \<le> 1"
      using slippage_factor by blast
    have "isFinite (fmul (Fin x) (Fin f))"
      using amountOut_Fin_bound[OF Fin] f(2,3) by (rule fmul_Fin_factor)
    then have "fmul (Fin x) (Fin f) \<noteq> NaN" by auto
    then show ?thesis using Fin f by (simp add: minReceived_def)
  qed (simp_all add: minReceived_def)
  from rate_eq amountOut_eq m n show ?thesis by blast
qed

theorem quote_spec_witness:
  "(0::real) \<le> 50 \<and> (50::real) \<le> 200
   \<and> rate (Some BTC) (Some ETH) = Fin (50 / 3)
   \<and> amountOut (Some BTC) (Some ETH) (Fin 2) = Fin (100 / 3)
   \<and> minReceived (Some BTC) (Some ETH) (Fin 2) (Fin 50) = Fin (199 / 6)"
proof -
  have h: "(0::real) \<le> 50" "(50::real) \<le> 200" by simp_all
  have "minReceived (Some BTC) (Some ETH) (Fin 2) (Fin 50) = Fin (199 / 6)"
    using quote_spec[OF h, of "Some BTC" "Some ETH" "Fin 2"]
    by (simp add: amountOut_2 fl_def)
  then show ?thesis using h rate_BTC_ETH amountOut_2 by simp
qed

text \<open>
  C1 as stated fails where the product overflows: for the typed amount \<^verbatim>\<open>1e308\<close> and
  the pair BTC (50000) to ETH (3000), \<open>amountOut\<close> is \<open>+Infinity\<close>, which is not NaN, yet
  \<open>minReceived\<close> is NaN, and it differs from \<open>amountOut * (1 - 50 / 10000)\<close>, which is
  \<open>+Infinity\<close>.
\<close>

theorem quote_counterexample:
  "safeParseNumber (str ''1e308'') = Fin (10 ^ 308)
   \<and> amountOut (Some BTC) (Some ETH) (Fin (10 ^ 308)) = PInf
   \<and> minReceived (Some BTC) (Some ETH) (Fin (10 ^ 308)) (Fin 50) = NaN
   \<and> fmul (amountOut (Some BTC) (Some ETH) (Fin (10 ^ 308)))
        (fsub (Fin 1) (fdiv (Fin 50) (Fin 10000))) = PInf"
proof -
  have p: "safeParseNumber (str ''1e308'') = Fin (10 ^ 308)"
    by (simp add: safeParseNumber_def str_def trim_def isWhiteSpace_def Number_def
        parseNonDecimal_def roundLiteral_def parseUnsignedDecimal_def parseExponent_def
        isDecimalDigit_def digitsValue_def digitVal_def fl_def)
  have a: "amountOut (Some BTC) (Some ETH) (Fin (10 ^ 308)) = PInf"
    by (simp add: amountOut_def rate_BTC_ETH fl_def)
  have m: "minReceived (Some BTC) (Some ETH) (Fin (10 ^ 308)) (Fin 50) = NaN"
    using a by (rule minReceived_PInf)
  have "fmul PInf (fsub (Fin 1) (fdiv (Fin 50) (Fin 10000))) = PInf"
    by (simp add: fl_def)
  then have f: "fmul (amountOut (Some BTC) (Some ETH) (Fin (10 ^ 308)))
        (fsub (Fin 1) (fdiv (Fin 50) (Fin 10000))) = PInf"
    by (simp only: a)
  from p a m f show ?thesis by blast
qed

text \<open>
  C8, as the code has it. \<open>inputUSD\<close> is \<open>amountIn * priceIn\<close> when the amount and the
  input price are both finite, and NaN exactly otherwise; \<open>outputUSD\<close> is
  \<open>amountOut * priceOut\<close> when \<open>amountOut\<close> and the output price are both finite, and NaN
  exactly otherwise. The guard of \<open>inputUSD\<close> is finiteness alone: it has no test of
  the sign of the amount.
\<close>

theorem usd_spec:
  "inputUSD tokenIn amountIn =
     (if isFinite amountIn \<and> isFinite (priceIn tokenIn) then fmul amountIn (priceIn tokenIn) else NaN)
   \<and> outputUSD tokenIn tokenOut d =
     (if isFinite (amountOut tokenIn tokenOut d) \<and> isFinite (priceOut tokenOut)
      then fmul (amountOut tokenIn tokenOut d) (priceOut tokenOut) else NaN)
   \<and> (inputUSD tokenIn amountIn = NaN \<longleftrightarrow> \<not> (isFinite amountIn \<and> isFinite (priceIn tokenIn)))
   \<and> (outputUSD tokenIn tokenOut d = NaN
        \<longleftrightarrow> \<not> (isFinite (amountOut tokenIn tokenOut d) \<and> isFinite (priceOut tokenOut)))"
proof -
  have fin: "isFinite x \<Longrightarrow> isFinite y \<Longrightarrow> fmul x y \<noteq> NaN" for x y
    by (cases x; cases y) (simp_all add: fl_not_NaN)
  show ?thesis
    by (auto simp: inputUSD_def outputUSD_def fin)
qed

theorem usd_spec_witness:
  "inputUSD (Some BTC) (Fin 2) = Fin 100000
   \<and> outputUSD (Some BTC) (Some ETH) (Fin 2) = Fin 100000
   \<and> outputUSD (Some BTC) (Some ETH) (Fin 0) = NaN"
  using usd_spec[of "Some BTC" "Fin 2" "Some ETH" "Fin 2"]
        usd_spec[of "Some BTC" "Fin 0" "Some ETH" "Fin 0"]
  by (simp add: amountOut_2 priceIn_BTC priceOut_ETH rate_BTC_ETH fl_def amountOut_def)

text \<open>
  C8 as stated fails at a zero and at a negative amount: with BTC selected as input,
  the amounts 0 and -1 give no quote (\<open>amountOut\<close> is NaN), but \<open>inputUSD\<close> is 0 and
  -50000, not NaN.
\<close>

theorem usd_counterexample:
  "amountOut (Some BTC) (Some ETH) (Fin 0) = NaN \<and> inputUSD (Some BTC) (Fin 0) = Fin 0
   \<and> amountOut (Some BTC) (Some ETH) (Fin (- 1)) = NaN
   \<and> inputUSD (Some BTC) (Fin (- 1)) = Fin (- 50000)"
  by (simp add: amountOut_def rate_BTC_ETH inputUSD_def priceIn_BTC fl_def)

section \<open>Validation\<close>

text \<open>
  C2. For every state of the validator whose balance is a number, the verdict is the one
  obtained by checking the six rules in order and stopping at the first that fails: both
  tokens selected, distinct symbols, non-empty trimmed amount text, amount finite and
  positive, amount at most the balance, output amount finite and positive; it is \<open>ok\<close>
  exactly when all six hold, and otherwise carries the reason of the earliest failing
  rule. The simulated balance of the input token is always a number.
\<close>

theorem validation_spec:
  "(balIn \<noteq> NaN \<longrightarrow>
      validation tokenIn tokenOut amountInRaw amountIn balIn amtOut
        = firstFailure (validatorRules tokenIn tokenOut amountInRaw amountIn balIn amtOut)
      \<and> (ok (validation tokenIn tokenOut amountInRaw amountIn balIn amtOut)
           \<longleftrightarrow> list_all fst (validatorRules tokenIn tokenOut amountInRaw amountIn balIn amtOut)))
   \<and> balanceIn tokens tokenIn \<noteq> NaN"
proof -
  have "validation tokenIn tokenOut amountInRaw amountIn balIn amtOut
        = firstFailure (validatorRules tokenIn tokenOut amountInRaw amountIn balIn amtOut)
      \<and> (ok (validation tokenIn tokenOut amountInRaw amountIn balIn amtOut)
           \<longleftrightarrow> list_all fst (validatorRules tokenIn tokenOut amountInRaw amountIn balIn amtOut))"
    if b: "balIn \<noteq> NaN"
  proof (cases "isFinite amountIn")
    case False
    then show ?thesis
      by (cases tokenIn; cases tokenOut)
         (simp_all add: validation_def firstFailure_def validatorRules_def)
  next
    case True
    then obtain a where a: "amountIn = Fin a" by (cases amountIn) auto
    show ?thesis
    proof (cases "isFinite amtOut")
      case False
      then show ?thesis using b a
        by (cases tokenIn; cases tokenOut)
           (simp_all add: validation_def firstFailure_def validatorRules_def js_gt_le_Fin js_gt_0_iff)
    next
      case True
      then show ?thesis using b a
        by (cases tokenIn; cases tokenOut)
           (simp_all add: validation_def firstFailure_def validatorRules_def js_gt_le_Fin js_gt_0_iff)
    qed
  qed
  then show ?thesis using balanceIn_not_NaN by blast
qed

theorem validation_spec_witness:
  "pseudoBalance (str ''BTC'') = Fin (9097 / 100)
   \<and> validation (Some BTC) (Some ETH) (str ''2'') (Fin 2) (Fin (9097 / 100)) (Fin (100 / 3))
       = \<lparr>ok = True, msg = []\<rparr>
   \<and> validation None None [] NaN (Fin 0) NaN = \<lparr>ok = False, msg = str ''Pick tokens''\<rparr>
   \<and> validation (Some BTC) (Some ETH) (str ''100'') (Fin 100) (Fin (9097 / 100)) (Fin (5000 / 3))
       = \<lparr>ok = False, msg = str ''Insufficient balance''\<rparr>"
proof -
  have n: "Fin (9097 / 100) \<noteq> NaN" "Fin 0 \<noteq> NaN" by simp_all
  have s: "symbol BTC \<noteq> symbol ETH" by (simp add: BTC_def ETH_def str_def)
  have t: "trim (str ''2'') \<noteq> []" "trim (str ''100'') \<noteq> []"
    by (simp_all add: trim_def str_def isWhiteSpace_def)
  have p: "pseudoBalance (str ''BTC'') = Fin (9097 / 100)"
    by (simp add: pseudoBalance_def str_def fl_def)
  have a: "validation (Some BTC) (Some ETH) (str ''2'') (Fin 2) (Fin (9097 / 100)) (Fin (100 / 3))
       = \<lparr>ok = True, msg = []\<rparr>"
    using validation_spec[of "Fin (9097 / 100)" "Some BTC" "Some ETH" "str ''2''" "Fin 2" "Fin (100 / 3)"] n s t
    by (simp add: firstFailure_def validatorRules_def js_gt_def)
  have b: "validation None None [] NaN (Fin 0) NaN = \<lparr>ok = False, msg = str ''Pick tokens''\<rparr>"
    using validation_spec[of "Fin 0" None None "[]" NaN NaN] n
    by (simp add: firstFailure_def validatorRules_def)
  have c: "validation (Some BTC) (Some ETH) (str ''100'') (Fin 100) (Fin (9097 / 100)) (Fin (5000 / 3))
       = \<lparr>ok = False, msg = str ''Insufficient balance''\<rparr>"
    using validation_spec[of "Fin (9097 / 100)" "Some BTC" "Some ETH" "str ''100''" "Fin 100" "Fin (5000 / 3)"] n s t
    by (simp add: firstFailure_def validatorRules_def js_gt_def)
  from p a b c show ?thesis by blast
qed

section \<open>Sorting and the de-duplication map\<close>

lemma set_insort_cmp: "set (insort_cmp c x xs) = insert x (set xs)"
  by (induction xs) auto

lemma set_sort_cmp: "set (sort_cmp c xs) = set xs"
  unfolding sort_cmp_def by (induction xs) (simp_all add: set_insort_cmp)

lemma distinct_map_insort_cmp:
  "distinct (map f (insort_cmp c x xs)) \<longleftrightarrow> f x \<notin> f ` set xs \<and> distinct (map f xs)"
  by (induction xs) (auto simp: set_insort_cmp)

lemma distinct_map_sort_cmp: "distinct (map f (sort_cmp c xs)) \<longleftrightarrow> distinct (map f xs)"
  unfolding sort_cmp_def
proof (induction xs)
  case Nil
  show ?case by simp
next
  case (Cons x xs)
  have "set (foldr (insort_cmp c) xs []) = set xs"
    using set_sort_cmp[of c xs] by (simp add: sort_cmp_def)
  with Cons show ?case by (simp add: distinct_map_insort_cmp)
qed

lemma sorted_insort_cmp:
  assumes tot: "\<And>a b. c a b \<le> 0 \<or> c b a \<le> 0"
      and tr: "\<And>a b d. c a b \<le> 0 \<Longrightarrow> c b d \<le> 0 \<Longrightarrow> c a d \<le> 0"
  shows "sorted_wrt (\<lambda>a b. c a b \<le> 0) xs \<Longrightarrow> sorted_wrt (\<lambda>a b. c a b \<le> 0) (insort_cmp c x xs)"
proof (induction xs)
  case Nil
  show ?case by simp
next
  case (Cons y ys)
  show ?case
  proof (cases "c x y \<le> 0")
    case True
    then have "\<forall>z\<in>set ys. c x z \<le> 0" using Cons.prems tr by auto
    with True Cons.prems show ?thesis by simp
  next
    case False
    then have "c y x \<le> 0" using tot by blast
    with False Cons show ?thesis by (auto simp: set_insort_cmp)
  qed
qed

lemma sorted_sort_cmp:
  assumes tot: "\<And>a b. c a b \<le> 0 \<or> c b a \<le> 0"
      and tr: "\<And>a b d. c a b \<le> 0 \<Longrightarrow> c b d \<le> 0 \<Longrightarrow> c a d \<le> 0"
  shows "sorted_wrt (\<lambda>a b. c a b \<le> 0) (sort_cmp c xs)"
  unfolding sort_cmp_def
  by (induction xs) (simp_all add: sorted_insort_cmp[OF tot tr])

lemma consistent_flip:
  assumes "consistentComparator cmp"
  shows "cmp a b < 0 \<longleftrightarrow> 0 < cmp b a"
proof
  assume l: "cmp a b < 0"
  have r: "cmp a a = 0" using assms unfolding consistentComparator_def by blast
  have "\<not> cmp b a < 0"
  proof
    assume "cmp b a < 0"
    with l have "cmp a a < 0" using assms unfolding consistentComparator_def by blast
    with r show False by simp
  qed
  moreover have "cmp b a \<noteq> 0"
  proof
    assume "cmp b a = 0"
    then have "cmp a b = 0" using assms unfolding consistentComparator_def by blast
    with l show False by simp
  qed
  ultimately show "0 < cmp b a" by linarith
next
  assume l: "0 < cmp b a"
  have r: "cmp b b = 0" using assms unfolding consistentComparator_def by blast
  have "\<not> 0 < cmp a b"
  proof
    assume "0 < cmp a b"
    with l have "0 < cmp b b" using assms unfolding consistentComparator_def by blast
    with r show False by simp
  qed
  moreover have "cmp a b \<noteq> 0"
  proof
    assume "cmp a b = 0"
    then have "cmp b a = 0" using assms unfolding consistentComparator_def by blast
    with l show False by simp
  qed
  ultimately show "cmp a b < 0" by linarith
qed

lemma consistent_total:
  assumes "consistentComparator cmp"
  shows "cmp a b \<le> 0 \<or> cmp b a \<le> 0"
  using consistent_flip[OF assms, of b a] by linarith

lemma consistent_trans:
  assumes c: "consistentComparator cmp" and ab: "cmp a b \<le> 0" and bc: "cmp b d \<le> 0"
  shows "cmp a d \<le> 0"
proof (rule ccontr)
  assume "\<not> cmp a d \<le> 0"
  then have ad: "0 < cmp a d" by simp
  then have da: "cmp d a < 0" using consistent_flip[OF c, of d a] by simp
  have eqs: "\<And>x y. cmp x y = 0 \<Longrightarrow> cmp y x = 0"
    and eqt: "\<And>x y z. cmp x y = 0 \<Longrightarrow> cmp y z = 0 \<Longrightarrow> cmp x z = 0"
    and ltt: "\<And>x y z. cmp x y < 0 \<Longrightarrow> cmp y z < 0 \<Longrightarrow> cmp x z < 0"
    and refl: "\<And>x. cmp x x = 0"
    using c unfolding consistentComparator_def by blast+
  show False
  proof (cases "cmp a b < 0")
    case True
    with da have db: "cmp d b < 0" by (rule ltt)
    show False
    proof (cases "cmp b d < 0")
      case True
      with db have "cmp d d < 0" by (rule ltt)
      then show False using refl[of d] by simp
    next
      case False
      with bc have "cmp b d = 0" by simp
      then have "cmp d b = 0" by (rule eqs)
      with db show False by simp
    qed
  next
    case False
    with ab have e: "cmp a b = 0" by simp
    show False
    proof (cases "cmp b d < 0")
      case True
      then have "cmp b a < 0" using da by (rule ltt)
      moreover have "cmp b a = 0" using e by (rule eqs)
      ultimately show False by simp
    next
      case False
      with bc have "cmp b d = 0" by simp
      with e have "cmp a d = 0" by (rule eqt)
      with ad show False by simp
    qed
  qed
qed

lemma sort_cmp_sorted_id: "sorted_wrt (\<lambda>a b. c a b \<le> 0) xs \<Longrightarrow> sort_cmp c xs = xs"
  unfolding sort_cmp_def
proof (induction xs)
  case Nil
  show ?case by simp
next
  case (Cons x xs)
  then have "foldr (insort_cmp c) xs [] = xs" by simp
  moreover have "insort_cmp c x xs = x # xs" using Cons.prems by (cases xs) auto
  ultimately show ?case by simp
qed

lemma map_of_map_set: "map_of (map_set k v m) = (map_of m)(k \<mapsto> v)"
  by (induction m) (auto simp: fun_eq_iff)

lemma fst_set_map_set: "fst ` set (map_set k v m) = insert k (fst ` set m)"
  by (induction m) auto

lemma distinct_map_set: "distinct (map fst m) \<Longrightarrow> distinct (map fst (map_set k v m))"
  by (induction m) (auto simp: fst_set_map_set)

lemma map_set_fresh: "k \<notin> fst ` set m \<Longrightarrow> map_set k v m = m @ [(k, v)]"
  by (induction m) auto

lemma dedupe_fold_distinct:
  "distinct (map fst m) \<Longrightarrow> distinct (map fst (foldl (\<lambda>m t. map_set (kf t) (vf t) m) m ts))"
  by (induction ts arbitrary: m) (simp_all add: distinct_map_set)

lemma dedupe_fold_map_of:
  "map_of (foldl (\<lambda>m t. map_set (kf t) (vf t) m) m ts)
     = map_of m ++ map_of (rev (map (\<lambda>t. (kf t, vf t)) ts))"
proof (induction ts arbitrary: m)
  case Nil
  show ?case by simp
next
  case (Cons t ts)
  show ?case
    by (simp add: Cons.IH map_of_map_set map_add_assoc[symmetric] del: map_add_assoc)
       (simp add: map_add_def fun_eq_iff split: option.splits)
qed

lemma dedupe_fold_fresh:
  "distinct (map kf ts) \<Longrightarrow> kf ` set ts \<inter> fst ` set m = {}
   \<Longrightarrow> foldl (\<lambda>m t. map_set (kf t) (vf t) m) m ts = m @ map (\<lambda>t. (kf t, vf t)) ts"
proof (induction ts arbitrary: m)
  case Nil
  show ?case by simp
next
  case (Cons t ts)
  have fresh: "kf t \<notin> fst ` set m" using Cons.prems by auto
  have "kf ` set ts \<inter> fst ` set (m @ [(kf t, vf t)]) = {}"
    using Cons.prems by auto
  with Cons show ?case by (simp add: map_set_fresh[OF fresh])
qed

section \<open>Trimming and the push guard\<close>

lemma dropWhile_self_iff: "dropWhile Q xs = xs \<longleftrightarrow> xs = [] \<or> \<not> Q (hd xs)"
proof (cases xs)
  case Nil
  then show ?thesis by simp
next
  case (Cons a list)
  have "length (dropWhile Q list) \<le> length list" by (rule length_dropWhile_le)
  then have "dropWhile Q list \<noteq> a # list" by auto
  with Cons show ?thesis by simp
qed

lemma trim_fixed_iff: "trim s = s \<longleftrightarrow> s = [] \<or> (\<not> isWhiteSpace (hd s) \<and> \<not> isWhiteSpace (last s))"
proof (cases "s = []")
  case True
  then show ?thesis by (simp add: trim_def)
next
  case False
  show ?thesis
  proof (cases "isWhiteSpace (hd s)")
    case True
    have "length (trim s) \<le> length (dropWhile isWhiteSpace s)"
      using length_dropWhile_le[of isWhiteSpace "rev (dropWhile isWhiteSpace s)"]
      by (simp add: trim_def)
    also have "\<dots> < length s"
      using True False length_dropWhile_le[of isWhiteSpace "tl s"] by (cases s) auto
    finally have "trim s \<noteq> s" by auto
    with True False show ?thesis by simp
  next
    case hd: False
    then have d: "dropWhile isWhiteSpace s = s" using False by (simp add: dropWhile_self_iff)
    have "trim s = s \<longleftrightarrow> dropWhile isWhiteSpace (rev s) = rev s"
      by (simp add: trim_def d rev_swap)
    also have "\<dots> \<longleftrightarrow> \<not> isWhiteSpace (last s)"
      using False by (simp add: dropWhile_self_iff hd_rev)
    finally show ?thesis using hd False by simp
  qed
qed

lemma trim_split: "\<exists>w. dropWhile isWhiteSpace s = trim s @ w"
proof -
  let ?u = "dropWhile isWhiteSpace s"
  have "rev ?u = takeWhile isWhiteSpace (rev ?u) @ dropWhile isWhiteSpace (rev ?u)" by simp
  then have "?u = rev (dropWhile isWhiteSpace (rev ?u)) @ rev (takeWhile isWhiteSpace (rev ?u))"
    by (metis rev_append rev_rev_ident)
  then show ?thesis unfolding trim_def by blast
qed

lemma trim_idem: "trim (trim s) = trim s"
proof (cases "trim s = []")
  case True
  have "trim [] = []" by (simp add: trim_def)
  then show ?thesis by (simp only: True)
next
  case False
  obtain w where w: "dropWhile isWhiteSpace s = trim s @ w" using trim_split by blast
  then have "dropWhile isWhiteSpace s \<noteq> []" using False by simp
  then have "\<not> isWhiteSpace (hd (dropWhile isWhiteSpace s))" by (rule hd_dropWhile)
  then have h: "\<not> isWhiteSpace (hd (trim s))" using w False by simp
  have "dropWhile isWhiteSpace (rev (dropWhile isWhiteSpace s)) \<noteq> []"
    using False by (simp add: trim_def)
  then have "\<not> isWhiteSpace (hd (dropWhile isWhiteSpace (rev (dropWhile isWhiteSpace s))))"
    by (rule hd_dropWhile)
  then have l: "\<not> isWhiteSpace (last (trim s))"
    using False by (simp add: trim_def last_rev)
  from h l show ?thesis by (simp add: trim_fixed_iff)
qed

lemma pushSymbol_symbolOf: "\<not> isl (pushSymbol P s) \<Longrightarrow> pushSymbol P s = Inr (symbolOf P s)"
  by (cases "pushSymbol P s") (simp_all add: symbolOf_def)

lemma trim_Nil: "trim [] = []"
  by (simp add: trim_def)

lemma symbolOf_trimmed: "trim (symbolOf P s) = symbolOf P s"
  by (auto simp: symbolOf_def pushSymbol_def trim_idem trim_Nil split: sum.splits if_splits)

lemma rejected_iff:
  "\<not> rejected s pr \<longleftrightarrow> s \<noteq> [] \<and> (\<exists>r. pr = Some (JNum (Fin r)) \<and> 0 < r)"
proof (cases pr)
  case None
  then show ?thesis by (simp add: rejected_def)
next
  case (Some v)
  show ?thesis
  proof (cases v)
    case (JNum n)
    then show ?thesis using Some by (cases n) (auto simp: rejected_def)
  qed (simp_all add: Some rejected_def)
qed

lemma push_throws: "isl (pushSymbol P s) \<Longrightarrow> isl (push P out s p)"
  by (cases "pushSymbol P s") (simp_all add: push_def)

lemma push_cases:
  "\<not> isl (pushSymbol P s) \<Longrightarrow>
   push P out s p =
     (if rejected (symbolOf P s) (pushPrice p) then Inr out
      else case iconUrl (symbolOf P s) of
             Inl e \<Rightarrow> Inl e
           | Inr u \<Rightarrow> Inr (out @ [\<lparr>symbol = symbolOf P s, price = asNumber (pushPrice p), icon = u\<rparr>]))"
proof -
  assume "\<not> isl (pushSymbol P s)"
  then have e: "pushSymbol P s = Inr (symbolOf P s)" by (rule pushSymbol_symbolOf)
  show ?thesis by (simp add: push_def Let_def e)
qed

lemma pushAll_Inr:
  "pushAll P out cs = Inr out' \<Longrightarrow>
     \<exists>ts. out' = out @ ts
        \<and> map (\<lambda>t. (symbol t, price t)) ts = acceptedOf P cs
        \<and> (\<forall>t\<in>set ts. iconUrl (symbol t) = Inr (icon t))
        \<and> (\<forall>c\<in>set cs. \<not> isl c)
        \<and> (\<forall>c\<in>set cs. \<not> isl (pushSymbol P (fst (projr c))))"
proof (induction cs arbitrary: out)
  case Nil
  then show ?case by simp
next
  case (Cons c cs)
  from Cons.prems obtain s p where c: "c = Inr (s, p)"
    by (cases c) auto
  from Cons.prems c obtain mid where mid: "push P out s p = Inr mid" "pushAll P mid cs = Inr out'"
    by (auto split: sum.splits)
  have ok: "\<not> isl (pushSymbol P s)"
    using push_throws[of P s out p] mid(1) by auto
  note pc = push_cases[OF ok, of out p]
  from Cons.IH[OF mid(2)] obtain ts where ts: "out' = mid @ ts"
      "map (\<lambda>t. (symbol t, price t)) ts = acceptedOf P cs"
      "\<forall>t\<in>set ts. iconUrl (symbol t) = Inr (icon t)" "\<forall>c\<in>set cs. \<not> isl c"
      "\<forall>c\<in>set cs. \<not> isl (pushSymbol P (fst (projr c)))"
    by blast
  have all: "\<forall>c'\<in>set (c # cs). \<not> isl c'" using ts(4) c by simp
  have all2: "\<forall>c'\<in>set (c # cs). \<not> isl (pushSymbol P (fst (projr c')))" using ts(5) c ok by simp
  show ?case
  proof (cases "rejected (symbolOf P s) (pushPrice p)")
    case True
    then have "mid = out" using mid(1) by (simp add: pc)
    with ts(1,2,3) c True all all2 show ?thesis by auto
  next
    case False
    then obtain u where u: "iconUrl (symbolOf P s) = Inr u"
        "mid = out @ [\<lparr>symbol = symbolOf P s, price = asNumber (pushPrice p), icon = u\<rparr>]"
      using mid(1) by (auto simp: pc split: sum.splits)
    let ?t = "\<lparr>symbol = symbolOf P s, price = asNumber (pushPrice p), icon = u\<rparr>"
    have "out' = out @ (?t # ts)" using ts(1) u(2) by simp
    moreover have "map (\<lambda>t. (symbol t, price t)) (?t # ts) = acceptedOf P (c # cs)"
      using ts(2) c False by simp
    moreover have "\<forall>t\<in>set (?t # ts). iconUrl (symbol t) = Inr (icon t)"
      using ts(3) u(1) by simp
    ultimately show ?thesis using all all2 by blast
  qed
qed

lemma acceptedOf_sound:
  "(s, n) \<in> set (acceptedOf P cs) \<Longrightarrow>
     \<exists>sr pr. Inr (sr, pr) \<in> set cs \<and> \<not> rejected (symbolOf P sr) (pushPrice pr)
        \<and> s = symbolOf P sr \<and> n = asNumber (pushPrice pr)"
proof (induction P cs rule: acceptedOf.induct)
  case (1 P)
  then show ?case by simp
next
  case (2 P e cs)
  then show ?case by auto
next
  case (3 P s' p' cs)
  then show ?case by (auto split: if_splits)
qed

lemma acceptedOf_valid:
  "(s, n) \<in> set (acceptedOf P cs) \<Longrightarrow> s \<noteq> [] \<and> trim s = s \<and> (\<exists>r. n = Fin r \<and> 0 < r)"
proof -
  assume "(s, n) \<in> set (acceptedOf P cs)"
  then obtain sr pr where a: "\<not> rejected (symbolOf P sr) (pushPrice pr)"
      "s = symbolOf P sr" "n = asNumber (pushPrice pr)"
    using acceptedOf_sound by blast
  from a(1) obtain r where "symbolOf P sr \<noteq> []" "pushPrice pr = Some (JNum (Fin r))" "0 < r"
    by (auto simp: rejected_iff)
  with a show ?thesis by (simp add: symbolOf_trimmed)
qed

section \<open>The example engine\<close>

lemma unat_lower_sub: "0x61 \<le> (c :: 16 word) \<Longrightarrow> unat (c - 0x20) = unat c - 32"
proof -
  assume "0x61 \<le> c"
  then have "(0x20 :: 16 word) \<le> c" by (simp add: word_le_nat_alt)
  then show ?thesis by (simp add: unat_sub)
qed

lemma lower_to_upper_range:
  assumes "0x61 \<le> c" "c \<le> 0x7A"
  shows "0x41 \<le> c - 0x20 \<and> c - 0x20 \<le> (0x5A :: 16 word)"
proof -
  have "97 \<le> unat c" "unat c \<le> 122" using assms by (simp_all add: word_le_nat_alt)
  then have "65 \<le> unat c - 32 \<and> unat c - 32 \<le> 90" by arith
  then show ?thesis using assms(1) by (simp add: word_le_nat_alt unat_lower_sub)
qed

lemma letter_not_ws:
  assumes "0x41 \<le> (c :: 16 word)" "c \<le> 0x7A"
  shows "\<not> isWhiteSpace c"
proof -
  have u: "65 \<le> unat c" "unat c \<le> 122" using assms by (simp_all add: word_le_nat_alt)
  have "unat c \<noteq> unat (w :: 16 word)" if "unat w < 65 \<or> 122 < unat w" for w
    using that u by arith
  then have ne: "c \<noteq> w" if "unat w < 65 \<or> 122 < unat w" for w :: "16 word"
    using that by blast
  show ?thesis
    unfolding isWhiteSpace_def using u
    by (auto simp: word_le_nat_alt dest: ne[rotated])
qed

lemma codeUnitCompare_eq: "codeUnitCompare a b = 0 \<longleftrightarrow> a = b"
  by (induction a b rule: codeUnitCompare.induct) auto

lemma codeUnitCompare_flip: "codeUnitCompare a b < 0 \<longleftrightarrow> 0 < codeUnitCompare b a"
  by (induction a b rule: codeUnitCompare.induct) auto

lemma codeUnitCompare_less_trans:
  "codeUnitCompare a b < 0 \<Longrightarrow> codeUnitCompare b c < 0 \<Longrightarrow> codeUnitCompare a c < 0"
proof (induction a arbitrary: b c)
  case Nil
  then show ?case by (cases b; cases c) auto
next
  case (Cons x xs)
  then obtain y ys where b: "b = y # ys" by (cases b) auto
  with Cons.prems obtain z zs where c: "c = z # zs" by (cases c) auto
  from Cons.prems b c have xy: "x \<le> y" and yz: "y \<le> z"
    by (auto split: if_splits)
  show ?case
  proof (cases "x < z")
    case True
    then show ?thesis using c by simp
  next
    case False
    with xy yz have e: "x = y" "y = z" by auto
    with Cons.prems b c have "codeUnitCompare xs ys < 0" "codeUnitCompare ys zs < 0" by auto
    then have "codeUnitCompare xs zs < 0" by (rule Cons.IH)
    then show ?thesis using c e by simp
  qed
qed

lemma consistent_codeUnitCompare: "consistentComparator codeUnitCompare"
proof -
  have gt: "0 < codeUnitCompare a c" if "0 < codeUnitCompare a b" "0 < codeUnitCompare b c" for a b c
  proof -
    from that have "codeUnitCompare c b < 0" "codeUnitCompare b a < 0"
      by (simp_all add: codeUnitCompare_flip)
    then have "codeUnitCompare c a < 0" by (rule codeUnitCompare_less_trans)
    then show ?thesis by (simp add: codeUnitCompare_flip)
  qed
  have "\<forall>a. codeUnitCompare a a = 0" by (simp add: codeUnitCompare_eq)
  moreover have "\<forall>a b. codeUnitCompare a b = 0 \<longrightarrow> codeUnitCompare b a = 0"
    by (simp add: codeUnitCompare_eq)
  moreover have "\<forall>a b c. codeUnitCompare a b = 0 \<and> codeUnitCompare b c = 0 \<longrightarrow> codeUnitCompare a c = 0"
    by (simp add: codeUnitCompare_eq)
  moreover have "\<forall>a b c. codeUnitCompare a b < 0 \<and> codeUnitCompare b c < 0 \<longrightarrow> codeUnitCompare a c < 0"
    using codeUnitCompare_less_trans by blast
  moreover have "\<forall>a b c. 0 < codeUnitCompare a b \<and> 0 < codeUnitCompare b c \<longrightarrow> 0 < codeUnitCompare a c"
    using gt by blast
  ultimately show ?thesis
    unfolding consistentComparator_def by (intro conjI)
qed

lemma toUpperCase_example:
  "toUpperCase examplePlatform s =
     (if list_all (\<lambda>c. c < 0x80) s
      then map (\<lambda>c. if 0x61 \<le> c \<and> c \<le> 0x7A then c - 0x20 else c) s else s)"
  by (simp add: toUpperCase_def examplePlatform_def)

lemma upper_char_idem:
  "(let d = (if 0x61 \<le> c \<and> c \<le> 0x7A then c - 0x20 else c)
    in if 0x61 \<le> d \<and> d \<le> 0x7A then d - 0x20 else d)
   = (if 0x61 \<le> c \<and> c \<le> 0x7A then c - 0x20 else (c :: 16 word))"
proof (cases "0x61 \<le> c \<and> c \<le> 0x7A")
  case True
  then have "c - 0x20 \<le> 0x5A" using lower_to_upper_range by blast
  then have "\<not> 0x61 \<le> c - 0x20" by (simp add: word_le_nat_alt)
  with True show ?thesis by (simp add: Let_def)
next
  case False
  then show ?thesis by (simp add: Let_def)
qed

lemma upper_char_ascii:
  "c < 0x80 \<Longrightarrow> (if 0x61 \<le> c \<and> c \<le> 0x7A then c - 0x20 else (c :: 16 word)) < 0x80"
proof (cases "0x61 \<le> c \<and> c \<le> 0x7A")
  case True
  then have "c - 0x20 \<le> 0x5A" using lower_to_upper_range by blast
  then have "c - 0x20 < 0x80" by (simp add: word_le_nat_alt word_less_nat_alt)
  with True show ?thesis by simp
next
  case False
  assume "c < 0x80"
  with False show ?thesis by auto
qed

lemma upper_char_ws:
  "isWhiteSpace (if 0x61 \<le> c \<and> c \<le> 0x7A then c - 0x20 else c) \<longleftrightarrow> isWhiteSpace c"
proof (cases "0x61 \<le> c \<and> c \<le> 0x7A")
  case True
  then have r: "0x41 \<le> c - 0x20" "c - 0x20 \<le> 0x5A" using lower_to_upper_range by blast+
  from r(2) have "c - 0x20 \<le> 0x7A" by (simp add: word_le_nat_alt)
  with r(1) have a: "\<not> isWhiteSpace (c - 0x20)" by (rule letter_not_ws)
  from True have "0x41 \<le> c" by (simp add: word_le_nat_alt)
  with True have b: "\<not> isWhiteSpace c" using letter_not_ws by blast
  from a b True show ?thesis by simp
next
  case False
  then show ?thesis by auto
qed

lemma example_upperIdempotent: "upperIdempotent examplePlatform"
  unfolding upperIdempotent_def
proof
  fix s
  show "toUpperCase examplePlatform (toUpperCase examplePlatform s) = toUpperCase examplePlatform s"
  proof (cases "list_all (\<lambda>c. c < 0x80) s")
    case True
    then have "list_all (\<lambda>c. c < 0x80) (map (\<lambda>c. if 0x61 \<le> c \<and> c \<le> 0x7A then c - 0x20 else c) s)"
      by (induction s) (simp_all add: upper_char_ascii del: if_split cong: if_cong)
    with True show ?thesis
      using upper_char_idem by (simp add: toUpperCase_example Let_def comp_def)
  next
    case False
    then show ?thesis by (simp add: toUpperCase_example)
  qed
qed

lemma example_upperKeepsTrimmed: "upperKeepsTrimmed examplePlatform"
  unfolding upperKeepsTrimmed_def
proof (intro allI impI)
  fix s :: jsstring
  assume a: "s \<noteq> [] \<and> trim s = s"
  show "toUpperCase examplePlatform s \<noteq> [] \<and>
        trim (toUpperCase examplePlatform s) = toUpperCase examplePlatform s"
  proof (cases "list_all (\<lambda>c. c < 0x80) s")
    case True
    let ?f = "\<lambda>c :: 16 word. if 0x61 \<le> c \<and> c \<le> 0x7A then c - 0x20 else c"
    from a have ws: "\<not> isWhiteSpace (hd s)" "\<not> isWhiteSpace (last s)"
      by (auto simp: trim_fixed_iff)
    have ne: "map ?f s \<noteq> []" using a by simp
    have "hd (map ?f s) = ?f (hd s)" "last (map ?f s) = ?f (last s)"
      using a by (simp_all add: hd_map last_map)
    then have "\<not> isWhiteSpace (hd (map ?f s))" "\<not> isWhiteSpace (last (map ?f s))"
      using ws upper_char_ws by simp_all
    then have "trim (map ?f s) = map ?f s" using ne by (simp add: trim_fixed_iff)
    with True ne show ?thesis by (simp add: toUpperCase_example)
  next
    case False
    with a show ?thesis by (simp add: toUpperCase_example)
  qed
qed

section \<open>Percent encoding\<close>

lemma encode_ascii_ok: "list_all (\<lambda>c. c < 0x80) s \<Longrightarrow> \<not> isl (encodeURIComponent s)"
proof (induction s)
  case Nil
  show ?case by simp
next
  case (Cons c cs)
  then have c: "c < 0xD800" by (simp add: word_less_nat_alt)
  from Cons obtain r where "encodeURIComponent cs = Inr r"
    by (cases "encodeURIComponent cs") auto
  with c show ?case by simp
qed

lemma example_upperKeepsWellFormed: "upperKeepsWellFormed examplePlatform"
  unfolding upperKeepsWellFormed_def
proof
  fix s
  show "isl (encodeURIComponent s) \<or> \<not> isl (encodeURIComponent (toUpperCase examplePlatform s))"
  proof (cases "list_all (\<lambda>c. c < 0x80) s")
    case True
    then have "list_all (\<lambda>c. c < 0x80) (map (\<lambda>c. if 0x61 \<le> c \<and> c \<le> 0x7A then c - 0x20 else c) s)"
      by (induction s) (simp_all add: upper_char_ascii del: if_split cong: if_cong)
    then have "\<not> isl (encodeURIComponent (map (\<lambda>c. if 0x61 \<le> c \<and> c \<le> 0x7A then c - 0x20 else c) s))"
      by (rule encode_ascii_ok)
    with True show ?thesis by (simp add: toUpperCase_example)
  next
    case False
    then show ?thesis by (simp add: toUpperCase_example)
  qed
qed

lemma hexDigit_unreserved: "d < 16 \<Longrightarrow> isUriUnreserved (hexDigit d)"
proof -
  assume "d < 16"
  then have "d \<in> {0, 1, 2, 3, 4, 5, 6, 7, 8, 9, 10, 11, 12, 13, 14, 15}" by simp arith
  then show ?thesis
    by (elim insertE emptyE) (simp_all add: hexDigit_def isUriUnreserved_def)
qed

lemma utf8_octets: "cp < 0x110000 \<Longrightarrow> \<forall>b\<in>set (utf8 cp). b < 256"
  unfolding utf8_def by (auto; arith)

lemma percentEscape_safe:
  "\<forall>b\<in>set bs. b < 256 \<Longrightarrow> list_all (\<lambda>c. isUriUnreserved c \<or> c = 0x25) (percentEscape bs)"
proof (induction bs)
  case Nil
  show ?case by (simp add: percentEscape_def)
next
  case (Cons b bs)
  then have "b div 16 < 16" "b mod 16 < 16" by auto
  then have "isUriUnreserved (hexDigit (b div 16))" "isUriUnreserved (hexDigit (b mod 16))"
    by (simp_all add: hexDigit_unreserved)
  with Cons show ?case by (simp add: percentEscape_def)
qed

lemma unit_escape_safe: "list_all (\<lambda>c. isUriUnreserved c \<or> c = 0x25) (percentEscape (utf8 (unat (c :: 16 word))))"
proof -
  have "unat c < 2 ^ 16" using unsigned_less[of c] by simp
  then have "unat c < 0x110000" by simp
  then show ?thesis by (intro percentEscape_safe utf8_octets)
qed

lemma pair_escape_safe:
  assumes "\<not> (c < 0xD800 \<or> 0xDFFF < c)" "\<not> 0xDC00 \<le> (c :: 16 word)" "0xDC00 \<le> d \<and> d \<le> (0xDFFF :: 16 word)"
  shows "list_all (\<lambda>c. isUriUnreserved c \<or> c = 0x25)
           (percentEscape (utf8 (0x10000 + (unat c - 0xD800) * 0x400 + (unat d - 0xDC00))))"
proof -
  have "unat c < 0xDC00" "unat d \<le> 0xDFFF"
    using assms by (simp_all add: word_le_nat_alt word_less_nat_alt)
  then have "0x10000 + (unat c - 0xD800) * 0x400 + (unat d - 0xDC00) < 0x110000" by arith
  then show ?thesis by (intro percentEscape_safe utf8_octets)
qed

lemma encode_safe:
  "encodeURIComponent s = Inr e \<Longrightarrow> list_all (\<lambda>c. isUriUnreserved c \<or> c = 0x25) e"
proof (induction s arbitrary: e rule: encodeURIComponent.induct)
  case 1
  then show ?case by simp
next
  case (2 c cs)
  show ?case
  proof (cases "isUriUnreserved c")
    case True
    with "2.prems" obtain r where r: "encodeURIComponent cs = Inr r" "e = c # r"
      by (auto split: sum.splits)
    with True "2.IH"(1)[OF True r(1)] show ?thesis by simp
  next
    case nu: False
    show ?thesis
    proof (cases "c < 0xD800 \<or> 0xDFFF < c")
      case True
      with nu "2.prems" obtain r where r: "encodeURIComponent cs = Inr r"
          "e = percentEscape (utf8 (unat c)) @ r"
        by (auto split: sum.splits)
      from "2.IH"(2)[OF nu True r(1)] r(2) unit_escape_safe[of c] show ?thesis by simp
    next
      case ns: False
      with nu "2.prems" have nl: "\<not> 0xDC00 \<le> c" by (auto split: if_splits)
      with nu ns "2.prems" obtain d ds where cs: "cs = d # ds"
        by (cases cs) auto
      with nu ns nl "2.prems" have dr: "0xDC00 \<le> d \<and> d \<le> 0xDFFF"
        by (auto split: if_splits)
      with nu ns nl cs "2.prems" obtain r where r: "encodeURIComponent ds = Inr r"
          "e = percentEscape (utf8 (0x10000 + (unat c - 0xD800) * 0x400 + (unat d - 0xDC00))) @ r"
        by (auto split: sum.splits)
      from "2.IH"(3)[OF nu ns nl cs dr r(1)] r(2) pair_escape_safe[OF ns nl dr]
      show ?thesis by simp
    qed
  qed
qed

lemma iconUrl_safe: "iconUrl s = Inr u \<Longrightarrow> list_all isUrlChar u"
proof -
  assume "iconUrl s = Inr u"
  then obtain e where e: "encodeURIComponent s = Inr e"
      "u = str ''https://raw.githubusercontent.com/Switcheo/token-icons/main/tokens/'' @ e @ str ''.svg''"
    by (auto simp: iconUrl_def split: sum.splits)
  have "list_all isUrlChar e"
    using encode_safe[OF e(1)] by (auto simp: list_all_iff isUrlChar_def)
  moreover have "list_all isUrlChar (str ''https://raw.githubusercontent.com/Switcheo/token-icons/main/tokens/'')"
    by (simp add: str_def isUrlChar_def isUriUnreserved_def)
  moreover have "list_all isUrlChar (str ''.svg'')"
    by (simp add: str_def isUrlChar_def isUriUnreserved_def)
  ultimately show ?thesis using e(2) by simp
qed

lemma iconUrl_isl: "isl (iconUrl s) \<longleftrightarrow> isl (encodeURIComponent s)"
  by (cases "encodeURIComponent s") (simp_all add: iconUrl_def)

section \<open>Structure of the normalizer\<close>

lemma map_of_rev_last:
  "map_of (rev (map (\<lambda>t. (kf t, vf t)) ts)) k =
     (if filter (\<lambda>t. kf t = k) ts = [] then None
      else Some (vf (last (filter (\<lambda>t. kf t = k) ts))))"
  by (induction ts rule: rev_induct) auto

lemma dedupe_distinct: "distinct (map fst (dedupe P out))"
  unfolding dedupe_def by (rule dedupe_fold_distinct) simp

lemma dedupe_map_of:
  "map_of (dedupe P out) k =
     (if filter (\<lambda>t. toUpperCase P (symbol t) = k) out = [] then None
      else Some ((last (filter (\<lambda>t. toUpperCase P (symbol t) = k) out))\<lparr>symbol := k\<rparr>))"
proof -
  have "map_of (dedupe P out) k
        = map_of (rev (map (\<lambda>t. (toUpperCase P (symbol t), t\<lparr>symbol := toUpperCase P (symbol t)\<rparr>)) out)) k"
    unfolding dedupe_def by (simp add: dedupe_fold_map_of)
  also have "\<dots> = (if filter (\<lambda>t. toUpperCase P (symbol t) = k) out = [] then None
      else Some ((\<lambda>t. t\<lparr>symbol := toUpperCase P (symbol t)\<rparr>)
                   (last (filter (\<lambda>t. toUpperCase P (symbol t) = k) out))))"
    by (rule map_of_rev_last)
  also have "\<dots> = (if filter (\<lambda>t. toUpperCase P (symbol t) = k) out = [] then None
      else Some ((last (filter (\<lambda>t. toUpperCase P (symbol t) = k) out))\<lparr>symbol := k\<rparr>))"
  proof (cases "filter (\<lambda>t. toUpperCase P (symbol t) = k) out = []")
    case True
    then show ?thesis by simp
  next
    case False
    then have "last (filter (\<lambda>t. toUpperCase P (symbol t) = k) out)
                 \<in> set (filter (\<lambda>t. toUpperCase P (symbol t) = k) out)"
      by (rule last_in_set)
    then have "toUpperCase P (symbol (last (filter (\<lambda>t. toUpperCase P (symbol t) = k) out))) = k"
      by simp
    then show ?thesis by simp
  qed
  finally show ?thesis .
qed

lemma dedupe_entry:
  assumes "(k, v) \<in> set (dedupe P out)"
  shows "filter (\<lambda>t. toUpperCase P (symbol t) = k) out \<noteq> []
       \<and> v = (last (filter (\<lambda>t. toUpperCase P (symbol t) = k) out))\<lparr>symbol := k\<rparr>"
proof -
  have "map_of (dedupe P out) k = Some v"
    using assms dedupe_distinct by (simp add: map_of_eq_Some_iff)
  then show ?thesis by (simp add: dedupe_map_of split: if_splits)
qed

lemma dedupe_keys: "fst ` set (dedupe P out) = (\<lambda>t. toUpperCase P (symbol t)) ` set out"
proof -
  have "fst ` set (dedupe P out) = dom (map_of (dedupe P out))"
    by (simp add: dom_map_of_conv_image_fst)
  also have "\<dots> = {k. filter (\<lambda>t. toUpperCase P (symbol t) = k) out \<noteq> []}"
    by (auto simp: dom_def dedupe_map_of)
  also have "\<dots> = (\<lambda>t. toUpperCase P (symbol t)) ` set out"
    by (auto simp: filter_empty_conv)
  finally show ?thesis .
qed

lemma dedupe_symbols: "map symbol (map snd (dedupe P out)) = map fst (dedupe P out)"
proof -
  have "symbol (snd e) = fst e" if "e \<in> set (dedupe P out)" for e
    using dedupe_entry[of "fst e" "snd e" P out] that by simp
  then show ?thesis by simp
qed

lemma parsePrices_Inr:
  assumes "parsePrices P data = Inr ts"
  obtains out where "pushAll P [] (candidates data) = Inr out"
    and "ts = sort_cmp (\<lambda>a b. localeCompare P (symbol a) (symbol b)) (map snd (dedupe P out))"
    and "map (\<lambda>t. (symbol t, price t)) out = acceptedOf P (candidates data)"
    and "\<forall>t\<in>set out. iconUrl (symbol t) = Inr (icon t)"
proof -
  from assms obtain out where out: "pushAll P [] (candidates data) = Inr out"
      "ts = sort_cmp (\<lambda>a b. localeCompare P (symbol a) (symbol b)) (map snd (dedupe P out))"
    by (auto simp: parsePrices_def split: sum.splits)
  from pushAll_Inr[OF out(1)] have "map (\<lambda>t. (symbol t, price t)) out = acceptedOf P (candidates data)"
      "\<forall>t\<in>set out. iconUrl (symbol t) = Inr (icon t)"
    by auto
  with out that show ?thesis by blast
qed

lemma parsePrices_distinct:
  assumes "parsePrices P data = Inr ts"
  shows "distinct (map symbol ts)"
proof -
  from assms obtain out where
    "ts = sort_cmp (\<lambda>a b. localeCompare P (symbol a) (symbol b)) (map snd (dedupe P out))"
    by (rule parsePrices_Inr)
  moreover have "distinct (map symbol (map snd (dedupe P out)))"
    by (simp only: dedupe_symbols dedupe_distinct)
  ultimately show ?thesis
    by (simp only: distinct_map_sort_cmp)
qed

lemma parsePrices_symbols:
  assumes "parsePrices P data = Inr ts"
  shows "symbol ` set ts = (\<lambda>e. toUpperCase P (fst e)) ` set (acceptedOf P (candidates data))"
proof -
  from assms obtain out where out:
    "ts = sort_cmp (\<lambda>a b. localeCompare P (symbol a) (symbol b)) (map snd (dedupe P out))"
    "map (\<lambda>t. (symbol t, price t)) out = acceptedOf P (candidates data)"
    by (rule parsePrices_Inr)
  have "set ts = set (map snd (dedupe P out))"
    using out(1) by (simp only: set_sort_cmp)
  then have "symbol ` set ts = set (map symbol (map snd (dedupe P out)))"
    by (simp only: set_map)
  also have "\<dots> = (\<lambda>t. toUpperCase P (symbol t)) ` set out"
    by (simp only: dedupe_symbols set_map dedupe_keys)
  also have "\<dots> = (\<lambda>e. toUpperCase P (fst e)) ` set (map (\<lambda>t. (symbol t, price t)) out)"
    by (simp add: image_image)
  finally show ?thesis by (simp only: out(2))
qed

lemma parsePrices_winner:
  assumes "parsePrices P data = Inr ts" and "t \<in> set ts"
  defines "w \<equiv> filter (\<lambda>e. toUpperCase P (fst e) = symbol t) (acceptedOf P (candidates data))"
  shows "w \<noteq> [] \<and> symbol t = toUpperCase P (fst (last w)) \<and> price t = snd (last w)
       \<and> iconUrl (fst (last w)) = Inr (icon t)"
proof -
  from assms(1) obtain out where out:
    "ts = sort_cmp (\<lambda>a b. localeCompare P (symbol a) (symbol b)) (map snd (dedupe P out))"
    "map (\<lambda>t. (symbol t, price t)) out = acceptedOf P (candidates data)"
    "\<forall>t\<in>set out. iconUrl (symbol t) = Inr (icon t)"
    by (rule parsePrices_Inr)
  from assms(2) out(1) obtain k where kv: "(k, t) \<in> set (dedupe P out)"
    by (auto simp: set_sort_cmp)
  let ?f = "filter (\<lambda>t'. toUpperCase P (symbol t') = k) out"
  from dedupe_entry[OF kv] have f: "?f \<noteq> []" "t = (last ?f)\<lparr>symbol := k\<rparr>" by simp_all
  then have k: "symbol t = k" by simp
  have w: "w = map (\<lambda>t. (symbol t, price t)) ?f"
    unfolding w_def out(2)[symmetric] k by (simp add: filter_map comp_def)
  have lf: "last ?f \<in> set ?f" using f(1) by (rule last_in_set)
  then have up: "toUpperCase P (symbol (last ?f)) = k" by simp
  have lw: "last w = (symbol (last ?f), price (last ?f))"
    using f(1) by (simp add: w last_map)
  from lf have "last ?f \<in> set out" by simp
  then have "iconUrl (symbol (last ?f)) = Inr (icon (last ?f))" using out(3) by blast
  moreover have "icon t = icon (last ?f)" "price t = price (last ?f)" using f(2) by simp_all
  ultimately show ?thesis using f(1) k up lw by (simp add: w)
qed

lemma rowArgs_isl: "isl (rowArgs row) \<longleftrightarrow> row = JNull"
  by (cases row) (simp_all add: rowArgs_def)

lemma entryArgs_not_isl: "\<not> isl (entryArgs kv)"
proof (cases kv)
  case (Pair k v)
  then show ?thesis by (cases v) (simp_all add: entryArgs_def)
qed

lemma candidates_isl:
  "(\<exists>c\<in>set (candidates data). isl c) \<longleftrightarrow> (\<exists>rows. data = JArr rows \<and> JNull \<in> set rows)"
  by (cases data) (auto simp: candidates_def rowArgs_isl entryArgs_not_isl)

lemma pushAll_returns:
  assumes "\<forall>c\<in>set cs. \<not> isl c"
      and "\<forall>c\<in>set cs. \<not> isl (pushSymbol P (fst (projr c)))"
      and "\<forall>e\<in>set (acceptedOf P cs). \<not> isl (encodeURIComponent (fst e))"
  shows "\<not> isl (pushAll P out cs)"
  using assms
proof (induction cs arbitrary: out)
  case Nil
  show ?case by simp
next
  case (Cons c cs)
  from Cons.prems(1) obtain s p where c: "c = Inr (s, p)" by (cases c) auto
  have ok: "\<not> isl (pushSymbol P s)" using Cons.prems(2) c by simp
  note pc = push_cases[OF ok]
  show ?case
  proof (cases "rejected (symbolOf P s) (pushPrice p)")
    case True
    then have "push P out s p = Inr out" by (simp add: pc)
    moreover have "\<not> isl (pushAll P out cs)"
      using Cons.prems c True by (intro Cons.IH) simp_all
    ultimately show ?thesis using c by simp
  next
    case False
    then have "\<not> isl (encodeURIComponent (symbolOf P s))"
      using Cons.prems(3) c by simp
    then obtain u where u: "iconUrl (symbolOf P s) = Inr u"
      by (cases "iconUrl (symbolOf P s)") (simp_all flip: iconUrl_isl)
    let ?out = "out @ [\<lparr>symbol = symbolOf P s, price = asNumber (pushPrice p), icon = u\<rparr>]"
    have "push P out s p = Inr ?out" using False u by (simp add: pc)
    moreover have "\<not> isl (pushAll P ?out cs)"
      using Cons.prems c False by (intro Cons.IH) simp_all
    ultimately show ?thesis using c by simp
  qed
qed

lemma parsePrices_returns_iff:
  "\<not> isl (parsePrices P data) \<longleftrightarrow>
     (\<forall>c\<in>set (candidates data). \<not> isl c)
     \<and> (\<forall>c\<in>set (candidates data). \<not> isl (pushSymbol P (fst (projr c))))
     \<and> (\<forall>e\<in>set (acceptedOf P (candidates data)). \<not> isl (encodeURIComponent (fst e)))"
proof
  assume "\<not> isl (parsePrices P data)"
  then obtain ts where "parsePrices P data = Inr ts" by (cases "parsePrices P data") auto
  then obtain out where out: "pushAll P [] (candidates data) = Inr out"
    by (rule parsePrices_Inr)
  from pushAll_Inr[OF out] obtain ts' where ts': "out = [] @ ts'"
      "map (\<lambda>t. (symbol t, price t)) ts' = acceptedOf P (candidates data)"
      "\<forall>t\<in>set ts'. iconUrl (symbol t) = Inr (icon t)" "\<forall>c\<in>set (candidates data). \<not> isl c"
      "\<forall>c\<in>set (candidates data). \<not> isl (pushSymbol P (fst (projr c)))"
    by blast
  have "\<not> isl (encodeURIComponent (fst e))" if "e \<in> set (acceptedOf P (candidates data))" for e
  proof -
    from that ts'(2) obtain t where t: "t \<in> set ts'" "e = (symbol t, price t)"
      by (metis (no_types, lifting) imageE set_map)
    then have "iconUrl (symbol t) = Inr (icon t)" using ts'(3) by blast
    then have "\<not> isl (iconUrl (symbol t))" by simp
    then show ?thesis using t(2) by (simp add: iconUrl_isl)
  qed
  with ts'(4,5) show "(\<forall>c\<in>set (candidates data). \<not> isl c)
     \<and> (\<forall>c\<in>set (candidates data). \<not> isl (pushSymbol P (fst (projr c))))
     \<and> (\<forall>e\<in>set (acceptedOf P (candidates data)). \<not> isl (encodeURIComponent (fst e)))"
    by blast
next
  assume "(\<forall>c\<in>set (candidates data). \<not> isl c)
     \<and> (\<forall>c\<in>set (candidates data). \<not> isl (pushSymbol P (fst (projr c))))
     \<and> (\<forall>e\<in>set (acceptedOf P (candidates data)). \<not> isl (encodeURIComponent (fst e)))"
  then have "\<not> isl (pushAll P [] (candidates data))" by (intro pushAll_returns) simp_all
  then show "\<not> isl (parsePrices P data)"
    by (cases "pushAll P [] (candidates data)") (simp_all add: parsePrices_def)
qed

text \<open>
  The normalizer throws in three cases and no other: the feed is an array with a
  \<^verbatim>\<open>null\<close> element, the symbol of an entry cannot be converted to a string, or the
  symbol of an accepted entry holds an unpaired surrogate.
\<close>

lemma parsePrices_throws_iff:
  "isl (parsePrices P data) \<longleftrightarrow>
     (\<exists>rows. data = JArr rows \<and> JNull \<in> set rows)
     \<or> (\<exists>s p. Inr (s, p) \<in> set (candidates data) \<and> isl (pushSymbol P s))
     \<or> (\<exists>e\<in>set (acceptedOf P (candidates data)). isl (encodeURIComponent (fst e)))"
proof (cases "\<exists>c\<in>set (candidates data). isl c")
  case True
  then show ?thesis
    using parsePrices_returns_iff[of P data] candidates_isl[of data] by blast
next
  case False
  then have "(\<exists>c\<in>set (candidates data). isl (pushSymbol P (fst (projr c))))
      \<longleftrightarrow> (\<exists>s p. Inr (s, p) \<in> set (candidates data) \<and> isl (pushSymbol P s))"
    by (metis fst_conv prod.collapse sum.collapse(2) sum.sel(2))
  then show ?thesis
    using parsePrices_returns_iff[of P data] candidates_isl[of data] False by blast
qed

section \<open>The entries of a feed\<close>

text \<open>
  On every feed on which the normalizer returns, the entries that \<open>push\<close> accepts are the
  valid occurrences of the feed as the specification describes it, in the same order.
\<close>

lemma rowArgs_spec: "row \<noteq> JNull \<Longrightarrow> rowArgs row = Inr (symbolField row, fieldOf row ''price'')"
  by (cases row) (auto simp: rowArgs_def symbolField_def fieldOf_def split: option.splits json.splits)

lemma entryArgs_spec: "entryArgs kv = Inr (Some (JStr (fst kv)), Some (keyedPrice (snd kv)))"
proof (cases kv)
  case (Pair k v)
  show ?thesis
  proof (cases v)
    case (JObj props)
    show ?thesis
    proof (cases "map_of props (str ''price'')")
      case None
      then have "str ''price'' \<notin> fst ` set props" by (simp add: map_of_eq_None_iff)
      with None show ?thesis by (simp add: Pair JObj entryArgs_def keyedPrice_def fieldOf_def)
    next
      case (Some q)
      then have "str ''price'' \<in> fst ` set props" by (metis map_of_eq_None_iff option.distinct(1))
      with Some show ?thesis by (simp add: Pair JObj entryArgs_def keyedPrice_def fieldOf_def)
    qed
  qed (simp_all add: Pair entryArgs_def keyedPrice_def fieldOf_def)
qed

lemma candidates_spec:
  assumes "\<forall>c\<in>set (candidates data). \<not> isl c"
  shows "candidates data = map Inr (specEntries data)"
proof (cases data)
  case (JArr rows)
  from assms have "JNull \<notin> set rows" using candidates_isl[of data] JArr by auto
  then have "map rowArgs rows = map (\<lambda>r. Inr (symbolField r, fieldOf r ''price'')) rows"
    by (intro map_cong[OF refl] rowArgs_spec) auto
  then show ?thesis by (simp add: JArr candidates_def specEntries_def comp_def)
next
  case (JObj kvs)
  then show ?thesis by (simp add: candidates_def specEntries_def entryArgs_spec comp_def)
qed (simp_all add: candidates_def specEntries_def)

lemma symbolOf_spec: "symbolOf P s = specSymbol P s"
proof (cases s)
  case None
  then show ?thesis by (simp add: symbolOf_def pushSymbol_def specSymbol_def trim_Nil)
next
  case (Some v)
  show ?thesis
    by (cases v)
       (simp_all add: Some symbolOf_def pushSymbol_def specSymbol_def trim_Nil split: sum.splits)
qed

lemma asNumber_spec: "asNumber (pushPrice p) = specPrice p"
proof (cases p)
  case None
  then show ?thesis by (simp add: pushPrice_def specPrice_def)
next
  case (Some v)
  show ?thesis by (cases v) (simp_all add: Some pushPrice_def specPrice_def)
qed

lemma pushPrice_spec: "pushPrice p = Some (JNum (Fin r)) \<longleftrightarrow> specPrice p = Fin r"
proof (cases p)
  case None
  then show ?thesis by (simp add: pushPrice_def specPrice_def)
next
  case (Some v)
  show ?thesis by (cases v) (simp_all add: Some pushPrice_def specPrice_def)
qed

lemma validOccurrence_iff: "validOccurrence (s, n) \<longleftrightarrow> s \<noteq> [] \<and> (\<exists>r. n = Fin r \<and> 0 < r)"
  by (cases n) (simp_all add: validOccurrence_def js_gt_def)

lemma rejected_spec:
  "rejected (symbolOf P s) (pushPrice p) \<longleftrightarrow> \<not> validOccurrence (specSymbol P s, specPrice p)"
  using rejected_iff[of "symbolOf P s" "pushPrice p"]
  by (auto simp: validOccurrence_iff pushPrice_spec symbolOf_spec)

lemma acceptedOf_spec:
  "acceptedOf P (map Inr es)
     = filter validOccurrence (map (\<lambda>e. (specSymbol P (fst e), specPrice (snd e))) es)"
proof (induction es)
  case Nil
  show ?case by simp
next
  case (Cons e es)
  obtain s p where e: "e = (s, p)" by (cases e)
  show ?case
    using Cons.IH rejected_spec[of P s p]
    by (simp add: e symbolOf_spec asNumber_spec)
qed

lemma parsePrices_accepted:
  assumes "parsePrices P data = Inr ts"
  shows "acceptedOf P (candidates data) = filter validOccurrence (occurrences P data)"
proof -
  from assms have "\<not> isl (parsePrices P data)" by simp
  then have "\<forall>c\<in>set (candidates data). \<not> isl c" by (simp add: parsePrices_returns_iff)
  then have "candidates data = map Inr (specEntries data)" by (rule candidates_spec)
  then show ?thesis by (simp add: acceptedOf_spec occurrences_def)
qed

section \<open>Example feeds\<close>

lemmas eval_defs =
  parsePrices_def candidates_def entryArgs_def rowArgs_def push_def pushSymbol_def symbolOf_def
  pushPrice_def rejected_def iconUrl_def isUriUnreserved_def dedupe_def toUpperCase_def sort_cmp_def
  trim_def isWhiteSpace_def str_def Number_def parseNonDecimal_def roundLiteral_def
  parseUnsignedDecimal_def parseExponent_def isDecimalDigit_def digitsValue_def digitVal_def
  fl_def examplePlatform_def

lemma parse_exampleFeed: "parsePrices examplePlatform exampleFeed = Inr [BTC, ETH]"
  by (simp add: exampleFeed_def BTC_def ETH_def eval_defs)

lemma parse_usdtFeed: "parsePrices P usdtFeed = Inr [USDT]"
  by (simp add: usdtFeed_def USDT_def eval_defs)

lemma accepted_usdtFeed:
  "acceptedOf P (candidates usdtFeed) = [(str ''usdt'', Fin 1), (str ''USDT'', Fin 2)]"
  by (simp add: usdtFeed_def eval_defs)

lemmas spec_defs =
  occurrences_def specEntries_def symbolField_def fieldOf_def keyedPrice_def specSymbol_def
  specPrice_def

lemma occurrences_usdtFeed:
  "occurrences P usdtFeed = [(str ''usdt'', Fin 1), (str ''USDT'', Fin 2)]"
  by (simp add: usdtFeed_def spec_defs eval_defs)

lemma parse_keyedFeed: "parsePrices P keyedFeed = Inr [USDT]"
  by (simp add: keyedFeed_def USDT_def eval_defs)

lemma occurrences_keyedFeed:
  "occurrences P keyedFeed = [(str ''usdt'', Fin 1), (str ''USDT'', Fin 2), (str ''x'', Fin (- 1))]"
  by (simp add: keyedFeed_def spec_defs eval_defs)

lemma parse_rejectedLastFeed: "parsePrices P rejectedLastFeed = Inr [usdtFirst]"
  by (simp add: rejectedLastFeed_def usdtFirst_def eval_defs)

lemma occurrences_rejectedLastFeed:
  "occurrences P rejectedLastFeed = [(str ''usdt'', Fin 2), (str ''USDT'', Fin (- 1))]"
  by (simp add: rejectedLastFeed_def spec_defs eval_defs)

lemma parse_allRejectedFeed: "parsePrices P allRejectedFeed = Inr []"
  by (simp add: allRejectedFeed_def eval_defs)

lemma occurrences_allRejectedFeed:
  "occurrences P allRejectedFeed = [(str ''usdt'', Fin 0), (str ''USDT'', Fin (- 1))]"
  by (simp add: allRejectedFeed_def spec_defs eval_defs)

lemma upper_usdt: "toUpperCase P (str ''usdt'') = str ''USDT''" "toUpperCase P (str ''USDT'') = str ''USDT''"
  by (simp_all add: toUpperCase_def str_def)

subsection \<open>An engine whose collation ignores control characters\<close>

lemma consistent_pullback:
  assumes "consistentComparator cmp"
  shows "consistentComparator (\<lambda>a b. cmp (g a) (g b))"
proof -
  from assms have c: "\<And>a. cmp a a = 0" "\<And>a b. cmp a b = 0 \<Longrightarrow> cmp b a = 0"
      "\<And>a b c. cmp a b = 0 \<Longrightarrow> cmp b c = 0 \<Longrightarrow> cmp a c = 0"
      "\<And>a b c. cmp a b < 0 \<Longrightarrow> cmp b c < 0 \<Longrightarrow> cmp a c < 0"
      "\<And>a b c. 0 < cmp a b \<Longrightarrow> 0 < cmp b c \<Longrightarrow> 0 < cmp a c"
    unfolding consistentComparator_def by blast+
  have "\<forall>a. cmp (g a) (g a) = 0" using c(1) by simp
  moreover have "\<forall>a b. cmp (g a) (g b) = 0 \<longrightarrow> cmp (g b) (g a) = 0" using c(2) by blast
  moreover have "\<forall>a b c. cmp (g a) (g b) = 0 \<and> cmp (g b) (g c) = 0 \<longrightarrow> cmp (g a) (g c) = 0"
    using c(3) by blast
  moreover have "\<forall>a b c. cmp (g a) (g b) < 0 \<and> cmp (g b) (g c) < 0 \<longrightarrow> cmp (g a) (g c) < 0"
    using c(4) by blast
  moreover have "\<forall>a b c. 0 < cmp (g a) (g b) \<and> 0 < cmp (g b) (g c) \<longrightarrow> 0 < cmp (g a) (g c)"
    using c(5) by blast
  ultimately show ?thesis unfolding consistentComparator_def by (intro conjI)
qed

lemma collating_consistent: "consistentComparator (localeCompare collatingPlatform)"
proof -
  have "localeCompare collatingPlatform
          = (\<lambda>a b. codeUnitCompare (filter (\<lambda>c. \<not> isIgnorable c) a) (filter (\<lambda>c. \<not> isIgnorable c) b))"
    by (simp add: collatingPlatform_def collationCompare_def fun_eq_iff)
  then show ?thesis using consistent_pullback[OF consistent_codeUnitCompare] by simp
qed

lemma collating_upper: "toUpperCase collatingPlatform s = toUpperCase examplePlatform s"
  by (simp add: toUpperCase_def collatingPlatform_def examplePlatform_def)

lemma collating_upperIdempotent: "upperIdempotent collatingPlatform"
  using example_upperIdempotent by (simp add: upperIdempotent_def collating_upper)

lemma collating_upperKeepsTrimmed: "upperKeepsTrimmed collatingPlatform"
  using example_upperKeepsTrimmed by (simp add: upperKeepsTrimmed_def collating_upper)

lemma parse_controlFeed: "parsePrices collatingPlatform controlFeed = Inr [tokenAControl, tokenA]"
  by (simp add: controlFeed_def tokenAControl_def tokenA_def eval_defs collatingPlatform_def
      collationCompare_def isIgnorable_def utf8_def percentEscape_def hexDigit_def)

lemma compare_control:
  "localeCompare collatingPlatform (symbol tokenAControl) (symbol tokenA) = 0"
  by (simp add: tokenAControl_def tokenA_def collatingPlatform_def collationCompare_def
      isIgnorable_def str_def)

section \<open>The normalized list\<close>

lemma sorted_wrt_distinct_conj:
  "sorted_wrt R xs \<Longrightarrow> distinct (map f xs) \<Longrightarrow> sorted_wrt (\<lambda>a b. R a b \<and> f a \<noteq> f b) xs"
  by (induction xs) auto

lemma parsePrices_sorted:
  assumes "consistentComparator (localeCompare P)" "parsePrices P data = Inr ts"
  shows "sorted_wrt (\<lambda>a b. localeCompare P (symbol a) (symbol b) \<le> 0) ts"
proof -
  from assms(2) obtain out where
    ts: "ts = sort_cmp (\<lambda>a b. localeCompare P (symbol a) (symbol b)) (map snd (dedupe P out))"
    by (rule parsePrices_Inr)
  have tot: "localeCompare P (symbol a) (symbol b) \<le> 0 \<or> localeCompare P (symbol b) (symbol a) \<le> 0"
    for a b :: token
    using assms(1) by (rule consistent_total)
  have tr: "localeCompare P (symbol a) (symbol b) \<le> 0 \<Longrightarrow> localeCompare P (symbol b) (symbol d) \<le> 0
            \<Longrightarrow> localeCompare P (symbol a) (symbol d) \<le> 0" for a b d :: token
    using assms(1) by (rule consistent_trans)
  show ?thesis unfolding ts
    by (rule sorted_sort_cmp[of "\<lambda>a b. localeCompare P (symbol a) (symbol b)", OF tot tr])
qed

lemma sorted_strict:
  assumes "sorted_wrt (\<lambda>a b. cmp (f a) (f b) \<le> (0::int) \<and> f a \<noteq> f b) xs"
      and "\<forall>a b. cmp a b = 0 \<longrightarrow> a = b"
  shows "sorted_wrt (\<lambda>a b. cmp (f a) (f b) < 0) xs"
  using assms(1)
proof (rule sorted_wrt_mono_rel[rotated])
  fix a b
  assume "cmp (f a) (f b) \<le> 0 \<and> f a \<noteq> f b"
  moreover from this have "cmp (f a) (f b) \<noteq> 0" using assms(2) by blast
  ultimately show "cmp (f a) (f b) < 0" by simp
qed

text \<open>
  C3, as the code has it. For every feed on which the normalizer returns, given a
  consistent comparator and idempotent, trim-preserving upper-casing: every token of the
  result has a non-empty symbol with no white space at either end that upper-casing
  leaves unchanged, and a finite price above 0, and it is the upper-cased symbol and the
  price of a valid occurrence of the feed (so an entry with an empty or white-space
  symbol, a non-numeric price or a price of 0 or less contributes no token); no two
  tokens share a symbol; and the list is sorted ascending by \<^verbatim>\<open>localeCompare\<close> on the
  symbol, not strictly: two tokens with different symbols may compare equal. It is
  strictly ascending whenever \<^verbatim>\<open>localeCompare\<close> returns 0 on identical strings only.
\<close>

theorem normalize_invariants:
  assumes "consistentComparator (localeCompare P)" and "upperIdempotent P"
      and "upperKeepsTrimmed P" and "parsePrices P data = Inr ts"
  shows "(\<forall>t\<in>set ts.
            symbol t \<noteq> [] \<and> trim (symbol t) = symbol t
          \<and> \<not> isWhiteSpace (hd (symbol t)) \<and> \<not> isWhiteSpace (last (symbol t))
          \<and> toUpperCase P (symbol t) = symbol t
          \<and> (\<exists>r. price t = Fin r \<and> 0 < r)
          \<and> (\<exists>occ\<in>set (occurrences P data).
                validOccurrence occ \<and> symbol t = toUpperCase P (fst occ) \<and> price t = snd occ))
       \<and> distinct (map symbol ts)
       \<and> sorted_wrt (\<lambda>a b. localeCompare P (symbol a) (symbol b) \<le> 0 \<and> symbol a \<noteq> symbol b) ts
       \<and> ((\<forall>a b. localeCompare P a b = 0 \<longrightarrow> a = b)
            \<longrightarrow> sorted_wrt (\<lambda>a b. localeCompare P (symbol a) (symbol b) < 0) ts)"
proof -
  have each: "symbol t \<noteq> [] \<and> trim (symbol t) = symbol t
          \<and> \<not> isWhiteSpace (hd (symbol t)) \<and> \<not> isWhiteSpace (last (symbol t))
          \<and> toUpperCase P (symbol t) = symbol t
          \<and> (\<exists>r. price t = Fin r \<and> 0 < r)
          \<and> (\<exists>occ\<in>set (occurrences P data).
                validOccurrence occ \<and> symbol t = toUpperCase P (fst occ) \<and> price t = snd occ)"
    if t: "t \<in> set ts" for t
  proof -
    define s0 where
      "s0 = fst (last (filter (\<lambda>e. toUpperCase P (fst e) = symbol t) (acceptedOf P (candidates data))))"
    define n0 where
      "n0 = snd (last (filter (\<lambda>e. toUpperCase P (fst e) = symbol t) (acceptedOf P (candidates data))))"
    from parsePrices_winner[OF assms(4) t]
    have w: "filter (\<lambda>e. toUpperCase P (fst e) = symbol t) (acceptedOf P (candidates data)) \<noteq> []"
        "symbol t = toUpperCase P s0" "price t = n0"
      by (simp_all add: s0_def n0_def)
    from w(1) have "last (filter (\<lambda>e. toUpperCase P (fst e) = symbol t) (acceptedOf P (candidates data)))
        \<in> set (filter (\<lambda>e. toUpperCase P (fst e) = symbol t) (acceptedOf P (candidates data)))"
      by (rule last_in_set)
    then have mem: "(s0, n0) \<in> set (acceptedOf P (candidates data))"
      by (simp add: s0_def n0_def)
    from acceptedOf_valid[OF mem] obtain r where
      v: "s0 \<noteq> []" "trim s0 = s0" "n0 = Fin r" "0 < r"
      by blast
    from mem have occ: "(s0, n0) \<in> set (occurrences P data)" "validOccurrence (s0, n0)"
      by (simp_all add: parsePrices_accepted[OF assms(4)])
    have up: "toUpperCase P s0 \<noteq> []" "trim (toUpperCase P s0) = toUpperCase P s0"
      using assms(3) v(1,2) unfolding upperKeepsTrimmed_def by blast+
    then have ne: "symbol t \<noteq> []" and tr: "trim (symbol t) = symbol t" by (simp_all add: w(2))
    from ne tr have ws: "\<not> isWhiteSpace (hd (symbol t))" "\<not> isWhiteSpace (last (symbol t))"
      by (auto simp: trim_fixed_iff)
    have "toUpperCase P (toUpperCase P s0) = toUpperCase P s0"
      using assms(2) unfolding upperIdempotent_def by blast
    then have idem: "toUpperCase P (symbol t) = symbol t" by (simp add: w(2))
    have pr: "\<exists>r. price t = Fin r \<and> 0 < r" using v(3,4) w(3) by simp
    have "validOccurrence (s0, n0) \<and> symbol t = toUpperCase P (fst (s0, n0)) \<and> price t = snd (s0, n0)"
      using occ(2) w(2,3) by simp
    with occ(1) have "\<exists>occ\<in>set (occurrences P data).
        validOccurrence occ \<and> symbol t = toUpperCase P (fst occ) \<and> price t = snd occ"
      by (rule rev_bexI)
    with ne tr ws idem pr show ?thesis by (intro conjI)
  qed
  have d: "distinct (map symbol ts)" using assms(4) by (rule parsePrices_distinct)
  have "sorted_wrt (\<lambda>a b. localeCompare P (symbol a) (symbol b) \<le> 0) ts"
    using assms(1,4) by (rule parsePrices_sorted)
  then have s: "sorted_wrt (\<lambda>a b. localeCompare P (symbol a) (symbol b) \<le> 0 \<and> symbol a \<noteq> symbol b) ts"
    using d by (rule sorted_wrt_distinct_conj)
  have "(\<forall>a b. localeCompare P a b = 0 \<longrightarrow> a = b)
            \<longrightarrow> sorted_wrt (\<lambda>a b. localeCompare P (symbol a) (symbol b) < 0) ts"
    using sorted_strict[OF s] by blast
  with each d s show ?thesis by blast
qed

theorem normalize_invariants_witness:
  "consistentComparator (localeCompare examplePlatform) \<and> upperIdempotent examplePlatform
   \<and> upperKeepsTrimmed examplePlatform \<and> parsePrices examplePlatform exampleFeed = Inr [BTC, ETH]
   \<and> trim (symbol BTC) = symbol BTC \<and> trim (symbol ETH) = symbol ETH
   \<and> distinct (map symbol [BTC, ETH])
   \<and> sorted_wrt (\<lambda>a b. localeCompare examplePlatform (symbol a) (symbol b) < 0) [BTC, ETH]
   \<and> consistentComparator (localeCompare collatingPlatform) \<and> upperIdempotent collatingPlatform
   \<and> upperKeepsTrimmed collatingPlatform
   \<and> parsePrices collatingPlatform controlFeed = Inr [tokenAControl, tokenA]
   \<and> sorted_wrt (\<lambda>a b. localeCompare collatingPlatform (symbol a) (symbol b) \<le> 0 \<and> symbol a \<noteq> symbol b)
        [tokenAControl, tokenA]"
proof -
  have c: "consistentComparator (localeCompare examplePlatform)"
    using consistent_codeUnitCompare by (simp add: examplePlatform_def)
  have e: "\<forall>a b. localeCompare examplePlatform a b = 0 \<longrightarrow> a = b"
    by (simp add: examplePlatform_def codeUnitCompare_eq)
  note n = normalize_invariants[OF c example_upperIdempotent example_upperKeepsTrimmed parse_exampleFeed]
  from n e have "distinct (map symbol [BTC, ETH])"
    "sorted_wrt (\<lambda>a b. localeCompare examplePlatform (symbol a) (symbol b) < 0) [BTC, ETH]"
    by blast+
  moreover from n have "\<forall>t\<in>set [BTC, ETH]. trim (symbol t) = symbol t" by blast
  then have "trim (symbol BTC) = symbol BTC" "trim (symbol ETH) = symbol ETH" by simp_all
  moreover from normalize_invariants[OF collating_consistent collating_upperIdempotent
      collating_upperKeepsTrimmed parse_controlFeed]
  have "sorted_wrt (\<lambda>a b. localeCompare collatingPlatform (symbol a) (symbol b) \<le> 0 \<and> symbol a \<noteq> symbol b)
        [tokenAControl, tokenA]"
    by blast
  ultimately show ?thesis
    using c example_upperIdempotent example_upperKeepsTrimmed parse_exampleFeed
      collating_consistent collating_upperIdempotent collating_upperKeepsTrimmed parse_controlFeed
    by (intro conjI)
qed

text \<open>
  C3 as stated fails: the normalized list need not be strictly sorted. With an engine
  whose \<^verbatim>\<open>localeCompare\<close> ignores control characters, a consistent comparator, the feed
  \<^verbatim>\<open>{"A\u0002": 1, "A": 2}\<close> normalizes to two tokens with the different symbols
  \<^verbatim>\<open>A\u0002\<close> and \<^verbatim>\<open>A\<close> that compare equal; they stay in the order of the feed, so the
  list is not strictly ascending.
\<close>

theorem normalize_counterexample:
  "consistentComparator (localeCompare collatingPlatform) \<and> upperIdempotent collatingPlatform
   \<and> upperKeepsTrimmed collatingPlatform
   \<and> parsePrices collatingPlatform controlFeed = Inr [tokenAControl, tokenA]
   \<and> symbol tokenAControl \<noteq> symbol tokenA
   \<and> localeCompare collatingPlatform (symbol tokenAControl) (symbol tokenA) = 0
   \<and> \<not> sorted_wrt (\<lambda>a b. localeCompare collatingPlatform (symbol a) (symbol b) < 0)
          [tokenAControl, tokenA]"
proof -
  have "symbol tokenAControl \<noteq> symbol tokenA" by (simp add: tokenAControl_def tokenA_def str_def)
  moreover have "\<not> sorted_wrt (\<lambda>a b. localeCompare collatingPlatform (symbol a) (symbol b) < 0)
          [tokenAControl, tokenA]"
    by (simp add: compare_control)
  ultimately show ?thesis
    using collating_consistent collating_upperIdempotent collating_upperKeepsTrimmed
      parse_controlFeed compare_control
    by (intro conjI)
qed

text \<open>
  C4, as the code has it. For every feed on which the normalizer returns, the result has
  exactly one token for each upper-cased symbol of a valid occurrence of the feed and no
  other token, and that token carries the price of the last valid occurrence with that
  upper-cased symbol, in iteration order. The feed
  \<^verbatim>\<open>[{"currency":"usdt","price":"1.00"},{"currency":"USDT","price":2}]\<close>
  normalizes to the single token USDT with price 2.
\<close>

theorem dedupe_last_wins:
  assumes "parsePrices P data = Inr ts"
  shows "distinct (map symbol ts)
       \<and> symbol ` set ts
           = (\<lambda>occ. toUpperCase P (fst occ)) ` set (filter validOccurrence (occurrences P data))
       \<and> (\<forall>t\<in>set ts. price t =
             snd (last (filter (\<lambda>occ. toUpperCase P (fst occ) = symbol t)
                         (filter validOccurrence (occurrences P data)))))
       \<and> parsePrices P usdtFeed = Inr [USDT]"
  using parsePrices_distinct[OF assms] parsePrices_symbols[OF assms]
        parsePrices_winner[OF assms] parse_usdtFeed
  unfolding parsePrices_accepted[OF assms]
  by blast

theorem dedupe_last_wins_witness:
  "parsePrices examplePlatform usdtFeed = Inr [USDT]
   \<and> occurrences examplePlatform usdtFeed = [(str ''usdt'', Fin 1), (str ''USDT'', Fin 2)]
   \<and> price USDT = snd (last (filter (\<lambda>occ. toUpperCase examplePlatform (fst occ) = symbol USDT)
                               (filter validOccurrence [(str ''usdt'', Fin 1), (str ''USDT'', Fin 2)])))
   \<and> parsePrices examplePlatform keyedFeed = Inr [USDT]
   \<and> occurrences examplePlatform keyedFeed
       = [(str ''usdt'', Fin 1), (str ''USDT'', Fin 2), (str ''x'', Fin (- 1))]
   \<and> price USDT = snd (last (filter (\<lambda>occ. toUpperCase examplePlatform (fst occ) = symbol USDT)
                               (filter validOccurrence
                                  [(str ''usdt'', Fin 1), (str ''USDT'', Fin 2), (str ''x'', Fin (- 1))])))
   \<and> price USDT = Fin 2"
proof -
  have h: "parsePrices examplePlatform usdtFeed = Inr [USDT]" by (rule parse_usdtFeed)
  have k: "parsePrices examplePlatform keyedFeed = Inr [USDT]" by (rule parse_keyedFeed)
  note a = occurrences_usdtFeed[of examplePlatform]
  note b = occurrences_keyedFeed[of examplePlatform]
  from dedupe_last_wins[OF h]
  have "price USDT = snd (last (filter (\<lambda>occ. toUpperCase examplePlatform (fst occ) = symbol USDT)
                               (filter validOccurrence (occurrences examplePlatform usdtFeed))))"
    by simp
  then have 1: "price USDT = snd (last (filter (\<lambda>occ. toUpperCase examplePlatform (fst occ) = symbol USDT)
                               (filter validOccurrence [(str ''usdt'', Fin 1), (str ''USDT'', Fin 2)])))"
    by (simp only: a)
  from dedupe_last_wins[OF k]
  have "price USDT = snd (last (filter (\<lambda>occ. toUpperCase examplePlatform (fst occ) = symbol USDT)
                               (filter validOccurrence (occurrences examplePlatform keyedFeed))))"
    by simp
  then have 2: "price USDT = snd (last (filter (\<lambda>occ. toUpperCase examplePlatform (fst occ) = symbol USDT)
                               (filter validOccurrence
                                  [(str ''usdt'', Fin 1), (str ''USDT'', Fin 2), (str ''x'', Fin (- 1))])))"
    by (simp only: b)
  have 3: "price USDT = Fin 2" by (simp add: USDT_def)
  from h a 1 k b 2 3 show ?thesis by (intro conjI)
qed

text \<open>
  C4 as stated fails: the last occurrence of a symbol does not win when it is not valid,
  and a symbol that occurs more than once need not have a token. In the feed
  \<^verbatim>\<open>[{"currency":"usdt","price":2},{"currency":"USDT","price":-1}]\<close> the symbol USDT occurs
  twice; the token carries the price 2 of the first occurrence, not the price -1 of the
  last. In the feed \<^verbatim>\<open>[{"currency":"usdt","price":0},{"currency":"USDT","price":-1}]\<close> the
  symbol occurs twice and the result has no token.
\<close>

theorem dedupe_counterexample:
  "occurrences examplePlatform rejectedLastFeed = [(str ''usdt'', Fin 2), (str ''USDT'', Fin (- 1))]
   \<and> map (\<lambda>occ. toUpperCase examplePlatform (fst occ)) (occurrences examplePlatform rejectedLastFeed)
       = [str ''USDT'', str ''USDT'']
   \<and> parsePrices examplePlatform rejectedLastFeed = Inr [usdtFirst]
   \<and> symbol usdtFirst = str ''USDT''
   \<and> price usdtFirst = Fin 2
   \<and> snd (last (occurrences examplePlatform rejectedLastFeed)) = Fin (- 1)
   \<and> occurrences examplePlatform allRejectedFeed = [(str ''usdt'', Fin 0), (str ''USDT'', Fin (- 1))]
   \<and> parsePrices examplePlatform allRejectedFeed = Inr []"
proof -
  have "map (\<lambda>occ. toUpperCase examplePlatform (fst occ)) (occurrences examplePlatform rejectedLastFeed)
       = [str ''USDT'', str ''USDT'']"
    by (simp add: occurrences_rejectedLastFeed upper_usdt)
  moreover have "symbol usdtFirst = str ''USDT''" "price usdtFirst = Fin 2"
    by (simp_all add: usdtFirst_def)
  moreover have "snd (last (occurrences examplePlatform rejectedLastFeed)) = Fin (- 1)"
    by (simp add: occurrences_rejectedLastFeed)
  ultimately show ?thesis
    using occurrences_rejectedLastFeed[of examplePlatform] parse_rejectedLastFeed[of examplePlatform]
      occurrences_allRejectedFeed[of examplePlatform] parse_allRejectedFeed[of examplePlatform]
    by (intro conjI)
qed

text \<open>
  C7, as the code has it. The icon reference of a token of the result is \<open>iconUrl\<close> of
  the trimmed symbol as the feed spells it in the winning entry (the last accepted entry
  whose upper-cased symbol is the token's symbol): a function of that spelling, not of the
  upper-cased symbol; it is the icon reference of the token's symbol when the feed spells
  the symbol in upper case. It consists of unreserved URI characters, percent escapes and
  the colon and slashes of the fixed prefix.
\<close>

theorem icon_of_winner:
  assumes "parsePrices P data = Inr ts" and "t \<in> set ts"
  shows "toUpperCase P (fst (last (filter (\<lambda>e. toUpperCase P (fst e) = symbol t)
                                     (acceptedOf P (candidates data))))) = symbol t
       \<and> iconUrl (fst (last (filter (\<lambda>e. toUpperCase P (fst e) = symbol t)
                                (acceptedOf P (candidates data))))) = Inr (icon t)
       \<and> (fst (last (filter (\<lambda>e. toUpperCase P (fst e) = symbol t)
                         (acceptedOf P (candidates data)))) = symbol t
            \<longrightarrow> iconUrl (symbol t) = Inr (icon t))
       \<and> list_all isUrlChar (icon t)"
proof -
  define w where
    "w = fst (last (filter (\<lambda>e. toUpperCase P (fst e) = symbol t) (acceptedOf P (candidates data))))"
  from parsePrices_winner[OF assms]
  have w: "symbol t = toUpperCase P w" "iconUrl w = Inr (icon t)"
    by (simp_all add: w_def)
  from w(2) have "list_all isUrlChar (icon t)" by (rule iconUrl_safe)
  moreover have "w = symbol t \<longrightarrow> iconUrl (symbol t) = Inr (icon t)" using w(2) by auto
  ultimately have "toUpperCase P w = symbol t \<and> iconUrl w = Inr (icon t)
       \<and> (w = symbol t \<longrightarrow> iconUrl (symbol t) = Inr (icon t)) \<and> list_all isUrlChar (icon t)"
    using w by simp
  then show ?thesis unfolding w_def .
qed

theorem icon_of_winner_witness:
  "parsePrices examplePlatform usdtFeed = Inr [USDT] \<and> USDT \<in> set [USDT]
   \<and> iconUrl (str ''USDT'') = Inr (icon USDT) \<and> list_all isUrlChar (icon USDT)"
proof -
  have h: "parsePrices examplePlatform usdtFeed = Inr [USDT]" by (rule parse_usdtFeed)
  have m: "USDT \<in> set [USDT]" by simp
  have l: "fst (last (filter (\<lambda>e. toUpperCase examplePlatform (fst e) = symbol USDT)
                        (acceptedOf examplePlatform (candidates usdtFeed)))) = str ''USDT''"
    by (simp add: accepted_usdtFeed) (simp add: USDT_def eval_defs)
  from icon_of_winner[OF h m] show ?thesis using h l by simp
qed

text \<open>
  C7 as stated fails on the casing of the feed: the feeds \<^verbatim>\<open>{"usdt": 1}\<close> and
  \<^verbatim>\<open>{"USDT": 1}\<close> both normalize to one token with symbol USDT, with the icon
  references \<^verbatim>\<open>.../usdt.svg\<close> and \<^verbatim>\<open>.../USDT.svg\<close>.
\<close>

theorem icon_counterexample:
  "parsePrices examplePlatform lowerFeed = Inr [usdtLowerIcon]
   \<and> parsePrices examplePlatform upperFeed = Inr [usdtUpperIcon]
   \<and> symbol usdtLowerIcon = symbol usdtUpperIcon
   \<and> icon usdtLowerIcon \<noteq> icon usdtUpperIcon"
  by (simp add: lowerFeed_def upperFeed_def usdtLowerIcon_def usdtUpperIcon_def eval_defs)

text \<open>
  C5. The normalizer throws on some feeds: an array feed with a \<^verbatim>\<open>null\<close> element
  makes \<^verbatim>\<open>row.currency\<close> throw TypeError, a symbol holding an unpaired surrogate
  makes \<^verbatim>\<open>encodeURIComponent\<close> throw URIError, and a symbol that is an object with a
  key \<^verbatim>\<open>toString\<close>, as in \<^verbatim>\<open>[{"currency":{"toString":1},"price":1}]\<close>, makes
  \<^verbatim>\<open>String\<close> throw TypeError.
\<close>

theorem normalize_throws:
  "parsePrices P (JArr [JNull]) = Inl TypeError
   \<and> parsePrices P (JObj [([0xD800], JNum (Fin 1))]) = Inl URIError
   \<and> parsePrices P toStringFeed = Inl TypeError"
  by (simp add: toStringFeed_def eval_defs)

section \<open>Normalizing a normalized list\<close>

lemma parsePrices_token:
  assumes "parsePrices P data = Inr ts" and "t \<in> set ts"
  obtains s0 n0 where "(s0, n0) \<in> set (acceptedOf P (candidates data))"
    and "symbol t = toUpperCase P s0" and "price t = n0" and "iconUrl s0 = Inr (icon t)"
proof -
  define w where "w = filter (\<lambda>e. toUpperCase P (fst e) = symbol t) (acceptedOf P (candidates data))"
  from parsePrices_winner[OF assms]
  have w: "w \<noteq> []" "symbol t = toUpperCase P (fst (last w))" "price t = snd (last w)"
      "iconUrl (fst (last w)) = Inr (icon t)"
    by (simp_all add: w_def)
  from w(1) have "last w \<in> set w" by (rule last_in_set)
  then have "(fst (last w), snd (last w)) \<in> set (acceptedOf P (candidates data))"
    by (simp add: w_def)
  with w that show ?thesis by blast
qed

lemma rowArgs_tokenJson:
  "rowArgs (tokenJson t) = Inr (Some (JStr (symbol t)), Some (JNum (price t)))"
  by (simp add: rowArgs_def tokenJson_def str_def)

lemma push_clean:
  assumes "s \<noteq> []" "trim s = s" "0 < r" "iconUrl s = Inr u"
  shows "push P out (Some (JStr s)) (Some (JNum (Fin r)))
           = Inr (out @ [\<lparr>symbol = s, price = Fin r, icon = u\<rparr>])"
  using assms by (simp add: push_def pushSymbol_def pushPrice_def rejected_def)

lemma refreshIcon_simps:
  "symbol (refreshIcon t) = symbol t" "price (refreshIcon t) = price t"
  by (simp_all add: refreshIcon_def)

lemma refreshIcon_icon: "\<not> isl (iconUrl (symbol t)) \<Longrightarrow> iconUrl (symbol t) = Inr (icon (refreshIcon t))"
  by (cases "iconUrl (symbol t)") (simp_all add: refreshIcon_def)

lemma refreshIcon_id: "iconUrl (symbol t) = Inr (icon t) \<Longrightarrow> refreshIcon t = t"
  by (simp add: refreshIcon_def)

lemma push_canonical:
  assumes "canonical P t"
  shows "push P out (Some (JStr (symbol t))) (Some (JNum (price t))) = Inr (out @ [refreshIcon t])"
proof -
  from assms obtain r where r: "price t = Fin r" "0 < r" unfolding canonical_def by blast
  from assms have u: "iconUrl (symbol t) = Inr (icon (refreshIcon t))"
    unfolding canonical_def by (simp add: refreshIcon_icon)
  have "push P out (Some (JStr (symbol t))) (Some (JNum (Fin r)))
          = Inr (out @ [\<lparr>symbol = symbol t, price = Fin r, icon = icon (refreshIcon t)\<rparr>])"
    using assms r(2) u unfolding canonical_def by (intro push_clean) simp_all
  moreover have "\<lparr>symbol = symbol t, price = Fin r, icon = icon (refreshIcon t)\<rparr> = refreshIcon t"
    using r(1) by (simp add: refreshIcon_def)
  ultimately show ?thesis using r(1) by simp
qed

lemma pushAll_canonical:
  "\<forall>t\<in>set ts. canonical P t \<Longrightarrow>
     pushAll P out (map rowArgs (map tokenJson ts)) = Inr (out @ map refreshIcon ts)"
proof (induction ts arbitrary: out)
  case Nil
  show ?case by simp
next
  case (Cons t ts)
  then have "canonical P t" by simp
  then have "push P out (Some (JStr (symbol t))) (Some (JNum (price t))) = Inr (out @ [refreshIcon t])"
    by (rule push_canonical)
  moreover have "pushAll P (out @ [refreshIcon t]) (map rowArgs (map tokenJson ts))
                   = Inr ((out @ [refreshIcon t]) @ map refreshIcon ts)"
    using Cons.prems by (intro Cons.IH) simp
  ultimately show ?case by (simp add: rowArgs_tokenJson)
qed

lemma dedupe_canonical:
  assumes "\<forall>t\<in>set ts. toUpperCase P (symbol t) = symbol t" "distinct (map symbol ts)"
  shows "map snd (dedupe P ts) = ts"
proof -
  have k: "map (\<lambda>t. toUpperCase P (symbol t)) ts = map symbol ts"
    using assms(1) by simp
  have "dedupe P ts = [] @ map (\<lambda>t. (toUpperCase P (symbol t), t\<lparr>symbol := toUpperCase P (symbol t)\<rparr>)) ts"
    unfolding dedupe_def using assms(2) by (intro dedupe_fold_fresh) (simp_all add: k)
  then have "map snd (dedupe P ts) = map (\<lambda>t. t\<lparr>symbol := toUpperCase P (symbol t)\<rparr>) ts"
    by (simp add: comp_def)
  also have "\<dots> = ts" using assms(1) by (simp add: map_idI)
  finally show ?thesis .
qed

lemma reinject_canonical:
  assumes "\<forall>t\<in>set ts. canonical P t" "distinct (map symbol ts)"
      and "sorted_wrt (\<lambda>a b. localeCompare P (symbol a) (symbol b) \<le> 0) ts"
  shows "parsePrices P (reinject ts) = Inr (map refreshIcon ts)"
proof -
  have p: "pushAll P [] (candidates (reinject ts)) = Inr (map refreshIcon ts)"
    using pushAll_canonical[OF assms(1), of "[]"] by (simp add: candidates_def reinject_def)
  have "\<forall>t\<in>set (map refreshIcon ts). toUpperCase P (symbol t) = symbol t"
    using assms(1) by (simp add: canonical_def refreshIcon_simps)
  moreover have "distinct (map symbol (map refreshIcon ts))"
    using assms(2) by (simp add: comp_def refreshIcon_simps)
  ultimately have d: "map snd (dedupe P (map refreshIcon ts)) = map refreshIcon ts"
    by (rule dedupe_canonical)
  have "sorted_wrt (\<lambda>a b. localeCompare P (symbol a) (symbol b) \<le> 0) (map refreshIcon ts)"
    using assms(3) by (simp add: sorted_wrt_map refreshIcon_simps)
  then have "sort_cmp (\<lambda>a b. localeCompare P (symbol a) (symbol b)) (map refreshIcon ts)
               = map refreshIcon ts"
    by (rule sort_cmp_sorted_id)
  with p d show ?thesis by (simp add: parsePrices_def)
qed

lemma parsePrices_canonical:
  assumes "upperIdempotent P" "upperKeepsTrimmed P" "upperKeepsWellFormed P"
      and "parsePrices P data = Inr ts" and "t \<in> set ts"
  shows "canonical P t"
proof -
  from assms(4,5) obtain s0 n0 where a: "(s0, n0) \<in> set (acceptedOf P (candidates data))"
      "symbol t = toUpperCase P s0" "price t = n0" "iconUrl s0 = Inr (icon t)"
    by (rule parsePrices_token)
  from acceptedOf_valid[OF a(1)] obtain r where
    v: "s0 \<noteq> []" "trim s0 = s0" "n0 = Fin r" "0 < r"
    by blast
  have u: "toUpperCase P s0 \<noteq> []" "trim (toUpperCase P s0) = toUpperCase P s0"
    using assms(2) v(1,2) unfolding upperKeepsTrimmed_def by blast+
  have i: "toUpperCase P (toUpperCase P s0) = toUpperCase P s0"
    using assms(1) unfolding upperIdempotent_def by blast
  have "\<not> isl (encodeURIComponent s0)" using a(4) by (simp flip: iconUrl_isl)
  then have "\<not> isl (encodeURIComponent (toUpperCase P s0))"
    using assms(3) unfolding upperKeepsWellFormed_def by blast
  then have e: "\<not> isl (iconUrl (toUpperCase P s0))" by (simp add: iconUrl_isl)
  show ?thesis
    unfolding canonical_def a(2) a(3) using u i e v(3,4) by simp
qed

lemma canonical_refresh: "canonical P t \<Longrightarrow> canonical P (refreshIcon t)"
  by (simp add: canonical_def refreshIcon_simps)

lemma refreshIcon_idem: "refreshIcon (refreshIcon t) = refreshIcon t"
  by (cases "iconUrl (symbol t)") (simp_all add: refreshIcon_def)

text \<open>
  C6, as the code has it. Given a consistent comparator and upper-casing that is
  idempotent and preserves trimmed and well-formed text: handing the result of the
  normalizer back to it returns the same tokens in the same order, with the same symbols
  and prices, each with its icon reference derived afresh from the (upper-case) symbol.
  The list is returned unchanged when every icon reference already is the one of its
  symbol, and the list with refreshed icons is a fixed point.
\<close>

theorem reinject_stable:
  assumes "consistentComparator (localeCompare P)" and "upperIdempotent P"
      and "upperKeepsTrimmed P" and "upperKeepsWellFormed P"
      and "parsePrices P data = Inr ts"
  shows "parsePrices P (reinject ts) = Inr (map refreshIcon ts)
       \<and> map symbol (map refreshIcon ts) = map symbol ts
       \<and> map price (map refreshIcon ts) = map price ts
       \<and> (\<forall>t\<in>set ts. iconUrl (symbol t) = Inr (icon (refreshIcon t)))
       \<and> ((\<forall>t\<in>set ts. iconUrl (symbol t) = Inr (icon t)) \<longrightarrow> parsePrices P (reinject ts) = Inr ts)
       \<and> parsePrices P (reinject (map refreshIcon ts)) = Inr (map refreshIcon ts)"
proof -
  have c: "\<forall>t\<in>set ts. canonical P t"
    using parsePrices_canonical[OF assms(2,3,4,5)] by blast
  have d: "distinct (map symbol ts)" using assms(5) by (rule parsePrices_distinct)
  have s: "sorted_wrt (\<lambda>a b. localeCompare P (symbol a) (symbol b) \<le> 0) ts"
    using assms(1,5) by (rule parsePrices_sorted)
  have 1: "parsePrices P (reinject ts) = Inr (map refreshIcon ts)"
    using c d s by (rule reinject_canonical)
  have 2: "map symbol (map refreshIcon ts) = map symbol ts"
          "map price (map refreshIcon ts) = map price ts"
    by (simp_all add: comp_def refreshIcon_simps)
  have 3: "\<forall>t\<in>set ts. iconUrl (symbol t) = Inr (icon (refreshIcon t))"
    using c by (simp add: canonical_def refreshIcon_icon)
  have 4: "(\<forall>t\<in>set ts. iconUrl (symbol t) = Inr (icon t)) \<longrightarrow> parsePrices P (reinject ts) = Inr ts"
  proof
    assume "\<forall>t\<in>set ts. iconUrl (symbol t) = Inr (icon t)"
    then have "map refreshIcon ts = ts" by (simp add: map_idI refreshIcon_id)
    with 1 show "parsePrices P (reinject ts) = Inr ts" by simp
  qed
  have "parsePrices P (reinject (map refreshIcon ts)) = Inr (map refreshIcon (map refreshIcon ts))"
  proof (rule reinject_canonical)
    show "\<forall>t\<in>set (map refreshIcon ts). canonical P t" using c by (simp add: canonical_refresh)
    show "distinct (map symbol (map refreshIcon ts))" using d by (simp only: 2)
    show "sorted_wrt (\<lambda>a b. localeCompare P (symbol a) (symbol b) \<le> 0) (map refreshIcon ts)"
      using s by (simp add: sorted_wrt_map refreshIcon_simps)
  qed
  then have 5: "parsePrices P (reinject (map refreshIcon ts)) = Inr (map refreshIcon ts)"
    by (simp add: comp_def refreshIcon_idem)
  from 1 2 3 4 5 show ?thesis by blast
qed

lemma parse_lowerFeed: "parsePrices examplePlatform lowerFeed = Inr [usdtLowerIcon]"
  by (simp add: lowerFeed_def usdtLowerIcon_def eval_defs)

lemma parse_reinject_lower: "parsePrices examplePlatform (reinject [usdtLowerIcon]) = Inr [usdtUpperIcon]"
  by (simp add: reinject_def tokenJson_def usdtLowerIcon_def usdtUpperIcon_def eval_defs)

theorem reinject_stable_witness:
  "consistentComparator (localeCompare examplePlatform) \<and> upperIdempotent examplePlatform
   \<and> upperKeepsTrimmed examplePlatform \<and> upperKeepsWellFormed examplePlatform
   \<and> parsePrices examplePlatform exampleFeed = Inr [BTC, ETH]
   \<and> parsePrices examplePlatform (reinject [BTC, ETH]) = Inr [BTC, ETH]"
proof -
  have c: "consistentComparator (localeCompare examplePlatform)"
    using consistent_codeUnitCompare by (simp add: examplePlatform_def)
  have i: "\<forall>t\<in>set [BTC, ETH]. iconUrl (symbol t) = Inr (icon t)"
    by (simp add: BTC_def ETH_def iconUrl_def isUriUnreserved_def str_def)
  from reinject_stable[OF c example_upperIdempotent example_upperKeepsTrimmed
      example_upperKeepsWellFormed parse_exampleFeed] i
  have "parsePrices examplePlatform (reinject [BTC, ETH]) = Inr [BTC, ETH]" by blast
  with c example_upperIdempotent example_upperKeepsTrimmed example_upperKeepsWellFormed
    parse_exampleFeed show ?thesis by blast
qed

text \<open>
  C6 as stated fails on a feed with a lower-case symbol: \<^verbatim>\<open>{"usdt": 1}\<close>
  normalizes to the token USDT with the icon \<^verbatim>\<open>.../usdt.svg\<close>, and that list
  handed back normalizes to the token USDT with the icon \<^verbatim>\<open>.../USDT.svg\<close>.
\<close>

theorem reinject_counterexample:
  "parsePrices examplePlatform lowerFeed = Inr [usdtLowerIcon]
   \<and> parsePrices examplePlatform (reinject [usdtLowerIcon]) = Inr [usdtUpperIcon]
   \<and> usdtUpperIcon \<noteq> usdtLowerIcon"
proof -
  have "usdtUpperIcon \<noteq> usdtLowerIcon"
    by (simp add: usdtUpperIcon_def usdtLowerIcon_def str_def)
  with parse_lowerFeed parse_reinject_lower show ?thesis by blast
qed

end
